theory Spec2Isabelle
  imports Complex_Main
begin

section \<open>Python strings and bytes\<close>

text \<open>
  A Python \<open>str\<close> is a sequence of Unicode code points, so it is a list of naturals
  (each below \<open>0x110000\<close>); \<open>len\<close>, slicing and indexing count code points.
  \<open>bytes\<close> is a list of naturals below 256. \<open>lit\<close> turns an ASCII literal of the
  source into its code points.
\<close>

type_synonym pystr = "nat list"
type_synonym bytes = "nat list"

definition lit :: "string \<Rightarrow> pystr" where
  "lit s = map of_char s"

definition endswith :: "pystr \<Rightarrow> pystr \<Rightarrow> bool" where
  "endswith s suffix = (length suffix \<le> length s \<and> drop (length s - length suffix) s = suffix)"

definition startswith :: "pystr \<Rightarrow> pystr \<Rightarrow> bool" where
  "startswith s prefix = (take (length prefix) s = prefix)"

definition lower_cp :: "nat \<Rightarrow> pystr" where
  \<comment> \<open>\<open>str.lower\<close> on one code point: exact below 256, and for the two code points above
      whose lower case contains an ASCII letter; every other code point is kept (its lower
      case has no ASCII letter, so no comparison with an ASCII word depends on it).\<close>
  "lower_cp c =
     (if 65 \<le> c \<and> c \<le> 90 then [c + 32]
      else if 192 \<le> c \<and> c \<le> 222 \<and> c \<noteq> 215 then [c + 32]
      else if c = 8490 then [107]
      else if c = 304 then [105, 775]
      else [c])"

definition lower :: "pystr \<Rightarrow> pystr" where
  "lower s = concat (map lower_cp s)"

section \<open>Image Normalizer: \<open>compress_image\<close>\<close>

text \<open>
  Pillow, PyMuPDF, python-pptx and base64 are libraries outside the repository. Their
  operations are the fields of an environment record; \<open>None\<close> stands for a raised
  exception. An image is its mode, its size and its pixel content (of an arbitrary type).
  \<open>fl\<close> is the rounding of an exact real result to a double: Python computes
  \<open>max_side / max(w, h)\<close> and \<open>w * ratio\<close> in binary64.
\<close>

record 'p image =
  img_mode :: pystr
  img_size :: "nat \<times> nat"
  img_pixels :: 'p

datatype shape = Picture "bytes option" | OtherShape

record ('p, 'g) env =
  fl :: "real \<Rightarrow> real"
  Image_open :: "bytes \<Rightarrow> 'p image option"
  convert_RGB :: "'p image \<Rightarrow> 'p"
  resize_LANCZOS :: "'p image \<Rightarrow> nat \<times> nat \<Rightarrow> 'p option"
  save_JPEG :: "'p image \<Rightarrow> bytes option"
  b64encode :: "bytes \<Rightarrow> pystr"
  fitz_open :: "bytes \<Rightarrow> 'g list option"
  pixmap_png :: "'g \<Rightarrow> bytes option"
  pptx_installed :: bool
  Presentation :: "bytes \<Rightarrow> pystr + shape list list"

definition scaled :: "(real \<Rightarrow> real) \<Rightarrow> nat \<Rightarrow> nat \<Rightarrow> nat \<Rightarrow> nat" where
  \<comment> \<open>\<open>ratio = max_side / max(w, h)\<close>, then \<open>int(d * ratio)\<close>\<close>
  "scaled rnd max_side longer d = nat \<lfloor>rnd (real d * rnd (real max_side / real longer))\<rfloor>"

definition normalized :: "('p, 'g) env \<Rightarrow> nat \<Rightarrow> bytes \<Rightarrow> 'p image option" where
  \<comment> \<open>lines 48 to 54 of \<open>compress_image\<close>: the image that is then saved\<close>
  "normalized E max_side image_bytes =
     (case Image_open E image_bytes of
        None \<Rightarrow> None
      | Some img0 \<Rightarrow>
          let img = (if img_mode img0 \<in> {lit ''RGBA'', lit ''P'', lit ''LA''}
                     then img0\<lparr>img_mode := lit ''RGB'', img_pixels := convert_RGB E img0\<rparr>
                     else img0);
              w = fst (img_size img); h = snd (img_size img)
          in if max w h > max_side
             then (let size' = (scaled (fl E) max_side (max w h) w,
                                scaled (fl E) max_side (max w h) h)
                   in case resize_LANCZOS E img size' of
                        None \<Rightarrow> None
                      | Some px \<Rightarrow> Some (img\<lparr>img_size := size', img_pixels := px\<rparr>))
             else Some img)"

definition compress_image :: "('p, 'g) env \<Rightarrow> nat \<Rightarrow> bytes \<Rightarrow> (pystr \<times> pystr) option" where
  "compress_image E max_side image_bytes =
     (case normalized E max_side image_bytes of
        None \<Rightarrow> None
      | Some img \<Rightarrow>
          (case save_JPEG E img of
             None \<Rightarrow> None
           | Some buf \<Rightarrow> Some (b64encode E buf, lit ''image/jpeg'')))"

section \<open>Document Rasterizer: \<open>upload_file\<close>\<close>

record page_image =
  page :: nat
  data :: pystr
  media_type :: pystr
  placeholder :: "bool option"

record upload_response =
  filename :: "pystr option"
  total_pages :: nat
  images :: "page_image list"

text \<open>
  \<open>HTTPException status detail\<close> is the exception the handler raises itself; \<open>Uncaught\<close>
  is any other exception that leaves the handler (the framework answers 500).
\<close>

datatype failure = HTTPException nat pystr | Uncaught

fun pdf_loop :: "('p, 'g) env \<Rightarrow> 'g list \<Rightarrow> nat list \<Rightarrow> page_image list option" where
  "pdf_loop E doc [] = Some []"
| "pdf_loop E doc (i # is) =
     (case pixmap_png E (doc ! i) of
        None \<Rightarrow> None
      | Some png \<Rightarrow>
          (case compress_image E 1400 png of
             None \<Rightarrow> None
           | Some (b64, mt) \<Rightarrow>
               (case pdf_loop E doc is of
                  None \<Rightarrow> None
                | Some rest \<Rightarrow>
                    Some (\<lparr>page = i + 1, data = b64, media_type = mt, placeholder = None\<rparr> # rest))))"

fun slide_pictures :: "('p, 'g) env \<Rightarrow> nat \<Rightarrow> shape list \<Rightarrow> page_image list" where
  "slide_pictures E slide_num [] = []"
| "slide_pictures E slide_num (OtherShape # shapes) = slide_pictures E slide_num shapes"
| "slide_pictures E slide_num (Picture blob # shapes) =
     (case (case blob of None \<Rightarrow> None | Some b \<Rightarrow> compress_image E 1400 b) of
        None \<Rightarrow> slide_pictures E slide_num shapes
      | Some (b64, mt) \<Rightarrow>
          \<lparr>page = slide_num, data = b64, media_type = mt, placeholder = None\<rparr>
            # slide_pictures E slide_num shapes)"

definition slide_entry :: "('p, 'g) env \<Rightarrow> nat \<Rightarrow> shape list \<Rightarrow> page_image list" where
  \<comment> \<open>the body of the loop over slides: what one slide adds to \<open>images\<close>\<close>
  "slide_entry E slide_num shapes =
     (let slide_images = slide_pictures E slide_num shapes;
          slide_images = (if slide_images = []
                          then [\<lparr>page = slide_num, data = [], media_type = lit ''image/jpeg'',
                                  placeholder = Some True\<rparr>]
                          else slide_images)
      in take 1 slide_images)"

fun pptx_loop :: "('p, 'g) env \<Rightarrow> nat \<Rightarrow> shape list list \<Rightarrow> page_image list" where
  "pptx_loop E slide_num [] = []"
| "pptx_loop E slide_num (slide # slides) =
     slide_entry E slide_num slide @ pptx_loop E (slide_num + 1) slides"

definition upload_file ::
  "('p, 'g) env \<Rightarrow> pystr option \<Rightarrow> bytes \<Rightarrow> failure + upload_response" where
  "upload_file E file_filename content =
     (let fname = lower (case file_filename of None \<Rightarrow> [] | Some f \<Rightarrow> f);
          result =
            (if endswith fname (lit ''.pdf'') then
               (case fitz_open E content of
                  None \<Rightarrow> Inl Uncaught
                | Some doc \<Rightarrow>
                    (case pdf_loop E doc [0..<min (length doc) 30] of
                       None \<Rightarrow> Inl Uncaught
                     | Some imgs \<Rightarrow> Inr imgs))
             else if \<exists>ext \<in> set [lit ''.png'', lit ''.jpg'', lit ''.jpeg'', lit ''.webp'', lit ''.gif''].
                       endswith fname ext then
               (case compress_image E 1400 content of
                  None \<Rightarrow> Inl Uncaught
                | Some (b64, mt) \<Rightarrow>
                    Inr [\<lparr>page = 1, data = b64, media_type = mt, placeholder = None\<rparr>])
             else if endswith fname (lit ''.pptx'') then
               (if \<not> pptx_installed E
                then Inl (HTTPException 400
                       (lit ''python-pptx is required for PPTX support. Run: pip install python-pptx''))
                else (case Presentation E content of
                        Inl e \<Rightarrow> Inl (HTTPException 400 (lit ''PPTX processing error: '' @ e))
                      | Inr slides \<Rightarrow> Inr (pptx_loop E 1 slides)))
             else Inl (HTTPException 400
                    (lit ''Unsupported file type '' @ [39] @ fname @ [39] @
                     lit ''. Supported: PDF, PNG, JPG, JPEG, WEBP, PPTX'')))
      in case result of
           Inl e \<Rightarrow> Inl e
         | Inr imgs \<Rightarrow>
             if imgs = []
             then Inl (HTTPException 400 (lit ''Could not extract any images from the file.''))
             else Inr \<lparr>filename = file_filename, total_pages = length imgs, images = imgs\<rparr>)"

text \<open>
  A stand-in for the libraries, used where a statement is evaluated at a concrete input:
  an image file is the two numbers of its size, a PDF is the list of the sides of its
  (square) pages, a deck is a list of slides, the slide \<open>0\<close> without pictures.
\<close>

definition sample_env :: "(unit, bytes) env" where
  "sample_env =
     \<lparr>fl = (\<lambda>x. x),
      Image_open = (\<lambda>b. case b of [w, h] \<Rightarrow> Some \<lparr>img_mode = lit ''RGBA'', img_size = (w, h), img_pixels = ()\<rparr>
                          | _ \<Rightarrow> None),
      convert_RGB = (\<lambda>img. ()),
      resize_LANCZOS = (\<lambda>img size'. if fst size' = 0 \<or> snd size' = 0 then None else Some ()),
      save_JPEG = (\<lambda>img. Some [fst (img_size img), snd (img_size img)]),
      b64encode = (\<lambda>b. b),
      fitz_open = (\<lambda>b. Some (map (\<lambda>x. [x, x]) b)),
      pixmap_png = Some,
      pptx_installed = True,
      Presentation = (\<lambda>b. Inr (map (\<lambda>x. if x = 0 then [OtherShape]
                                          else [OtherShape, Picture None, Picture (Some [x, x]),
                                                Picture (Some [x + 1, x])]) b))\<rparr>"

text \<open>
  What the statements about \<open>compress_image\<close> assume of binary64 arithmetic: zero is
  exact, and in the normal range a result is rounded with relative error at most \<open>2\<^sup>-\<^sup>5\<^sup>3\<close>.
\<close>

definition binary64_rounding :: "(real \<Rightarrow> real) \<Rightarrow> bool" where
  "binary64_rounding rnd \<longleftrightarrow>
     rnd 0 = 0 \<and>
     (\<forall>x. 1 / 2 ^ 1022 \<le> x \<and> x \<le> 2 ^ 1023 \<longrightarrow>
          x * (1 - 1 / 2 ^ 53) \<le> rnd x \<and> rnd x \<le> x * (1 + 1 / 2 ^ 53))"

section \<open>JSON values, \<open>json.dumps\<close> and \<open>json.loads\<close>\<close>

text \<open>
  The values \<open>json.loads\<close> builds and \<open>json.dumps\<close> prints. A \<open>dict\<close> keeps its
  insertion order, so it is an association list (a Python \<open>dict\<close> has no repeated key). A
  \<open>float\<close> is only ever read and printed by this program, never computed with: \<open>JFloat r\<close>
  is the double whose \<open>repr\<close> is \<open>r\<close> (\<open>inf\<close>, \<open>-inf\<close> and \<open>nan\<close> included).
\<close>

datatype json =
    JNull
  | JBool bool
  | JInt int
  | JFloat pystr
  | JStr pystr
  | JArr "json list"
  | JObj "(pystr \<times> json) list"

fun digits :: "nat \<Rightarrow> pystr" where
  "digits n = (if n < 10 then [48 + n] else digits (n div 10) @ [48 + n mod 10])"

definition str_int :: "int \<Rightarrow> pystr" where
  "str_int i = (if i < 0 then 45 # digits (nat (- i)) else digits (nat i))"

definition join :: "pystr \<Rightarrow> pystr list \<Rightarrow> pystr" where
  "join sep parts = (case parts of [] \<Rightarrow> [] | p # ps \<Rightarrow> p @ concat (map (\<lambda>q. sep @ q) ps))"

definition hexdigit :: "nat \<Rightarrow> nat" where
  "hexdigit d = (if d < 10 then 48 + d else 87 + d)"

definition escape_char :: "nat \<Rightarrow> pystr" where
  "escape_char c =
     (if c = 92 then [92, 92]
      else if c = 34 then [92, 34]
      else if c = 8 then [92, 98]
      else if c = 12 then [92, 102]
      else if c = 10 then [92, 110]
      else if c = 13 then [92, 114]
      else if c = 9 then [92, 116]
      else if c < 32 then [92, 117, 48, 48, hexdigit (c div 16), hexdigit (c mod 16)]
      else [c])"

definition encode_basestring :: "pystr \<Rightarrow> pystr" where
  "encode_basestring s = [34] @ concat (map escape_char s) @ [34]"

definition floatstr :: "pystr \<Rightarrow> pystr" where
  "floatstr r =
     (if r = lit ''nan'' then lit ''NaN''
      else if r = lit ''inf'' then lit ''Infinity''
      else if r = lit ''-inf'' then lit ''-Infinity''
      else r)"

definition newline_indent :: "nat \<Rightarrow> pystr" where
  "newline_indent level = 10 # replicate (2 * level) 32"

fun iterencode :: "nat \<Rightarrow> json \<Rightarrow> pystr" where
  "iterencode level JNull = lit ''null''"
| "iterencode level (JBool b) = (if b then lit ''true'' else lit ''false'')"
| "iterencode level (JInt i) = str_int i"
| "iterencode level (JFloat r) = floatstr r"
| "iterencode level (JStr s) = encode_basestring s"
| "iterencode level (JArr vs) =
     (if vs = [] then lit ''[]''
      else [91] @ newline_indent (level + 1)
           @ join ([44] @ newline_indent (level + 1)) (map (iterencode (level + 1)) vs)
           @ newline_indent level @ [93])"
| "iterencode level (JObj kvs) =
     (if kvs = [] then lit ''{}''
      else [123] @ newline_indent (level + 1)
           @ join ([44] @ newline_indent (level + 1))
               (map (\<lambda>kv. encode_basestring (fst kv) @ [58, 32] @ iterencode (level + 1) (snd kv)) kvs)
           @ newline_indent level @ [125])"

definition is_json_ws :: "nat \<Rightarrow> bool" where
  "is_json_ws c = (c = 32 \<or> c = 9 \<or> c = 10 \<or> c = 13)"

definition skip_ws :: "pystr \<Rightarrow> pystr" where
  "skip_ws s = dropWhile is_json_ws s"

definition is_digit :: "nat \<Rightarrow> bool" where
  "is_digit c = (48 \<le> c \<and> c \<le> 57)"

definition hexval :: "nat \<Rightarrow> nat option" where
  "hexval c =
     (if 48 \<le> c \<and> c \<le> 57 then Some (c - 48)
      else if 97 \<le> c \<and> c \<le> 102 then Some (c - 87)
      else if 65 \<le> c \<and> c \<le> 70 then Some (c - 55)
      else None)"

definition decode_uXXXX :: "pystr \<Rightarrow> (nat \<times> pystr) option" where
  \<comment> \<open>four hex digits after \<open>\\u\<close>\<close>
  "decode_uXXXX s =
     (case s of
        a # b # c # d # r \<Rightarrow>
          (case (hexval a, hexval b, hexval c, hexval d) of
             (Some x, Some y, Some z, Some w) \<Rightarrow> Some (((x * 16 + y) * 16 + z) * 16 + w, r)
           | _ \<Rightarrow> None)
      | _ \<Rightarrow> None)"

definition backslash :: "nat \<Rightarrow> nat option" where
  "backslash e =
     (if e = 34 then Some 34 else if e = 92 then Some 92 else if e = 47 then Some 47
      else if e = 98 then Some 8 else if e = 102 then Some 12 else if e = 110 then Some 10
      else if e = 114 then Some 13 else if e = 116 then Some 9 else None)"

lemma decode_uXXXX_length [termination_simp]:
  "decode_uXXXX s = Some (u, r) \<Longrightarrow> length r < length s"
  by (auto simp: decode_uXXXX_def split: list.splits option.splits)

function scanstring :: "pystr \<Rightarrow> (pystr \<times> pystr) option" where
  "scanstring [] = None"
| "scanstring (c # r) =
     (if c = 34 then Some ([], r)
      else if c = 92 then
        (case r of
           [] \<Rightarrow> None
         | e # r1 \<Rightarrow>
             if e = 117 then
               (case decode_uXXXX r1 of
                  None \<Rightarrow> None
                | Some (uni, r2) \<Rightarrow>
                    if 55296 \<le> uni \<and> uni \<le> 56319 \<and> take 2 r2 = [92, 117] then
                      (case decode_uXXXX (drop 2 r2) of
                         None \<Rightarrow> None
                       | Some (uni2, r3) \<Rightarrow>
                           if 56320 \<le> uni2 \<and> uni2 \<le> 57343 then
                             (case scanstring r3 of
                                None \<Rightarrow> None
                              | Some (t, r4) \<Rightarrow>
                                  Some ((65536 + (uni - 55296) * 1024 + (uni2 - 56320)) # t, r4))
                           else
                             (case scanstring r2 of
                                None \<Rightarrow> None
                              | Some (t, r4) \<Rightarrow> Some (uni # t, r4)))
                    else
                      (case scanstring r2 of
                         None \<Rightarrow> None
                       | Some (t, r4) \<Rightarrow> Some (uni # t, r4)))
             else
               (case backslash e of
                  None \<Rightarrow> None
                | Some ch \<Rightarrow>
                    (case scanstring r1 of
                       None \<Rightarrow> None
                     | Some (t, r4) \<Rightarrow> Some (ch # t, r4))))
      else if c < 32 then None
      else (case scanstring r of
              None \<Rightarrow> None
            | Some (t, r4) \<Rightarrow> Some (c # t, r4)))"
  by pat_completeness auto
termination
  by (relation "measure length") (auto dest!: decode_uXXXX_length)

definition digits_val :: "pystr \<Rightarrow> nat" where
  "digits_val ds = foldl (\<lambda>a c. 10 * a + (c - 48)) 0 ds"

definition int_group :: "pystr \<Rightarrow> pystr" where
  \<comment> \<open>the match of \<open>(-?(?:0|[1-9][0-9]*))\<close> at the start of the text, empty when none\<close>
  "int_group s =
     (let sign = (if take 1 s = [45] then [45] else [])
      in case drop (length sign) s of
           [] \<Rightarrow> []
         | d # r \<Rightarrow>
             if \<not> is_digit d then []
             else sign @ (if d = 48 then [d] else d # takeWhile is_digit r))"

definition frac_group :: "pystr \<Rightarrow> pystr" where
  \<comment> \<open>\<open>(\\.[0-9]+)?\<close>\<close>
  "frac_group s =
     (case s of
        [] \<Rightarrow> []
      | p # r \<Rightarrow> if p = 46 \<and> takeWhile is_digit r \<noteq> [] then p # takeWhile is_digit r else [])"

definition exp_group :: "pystr \<Rightarrow> pystr" where
  \<comment> \<open>\<open>([eE][-+]?[0-9]+)?\<close>\<close>
  "exp_group s =
     (case s of
        [] \<Rightarrow> []
      | e # r \<Rightarrow>
          if e = 101 \<or> e = 69 then
            (let sg = (if take 1 r = [43] \<or> take 1 r = [45] then take 1 r else []);
                 ds = takeWhile is_digit (drop (length sg) r)
             in if ds \<noteq> [] then e # sg @ ds else [])
          else [])"

definition int_of_lexeme :: "pystr \<Rightarrow> int" where
  \<comment> \<open>\<open>int(integer)\<close> on a match of the first group\<close>
  "int_of_lexeme integer =
     (if take 1 integer = [45] then - int (digits_val (drop 1 integer)) else int (digits_val integer))"

text \<open>
  \<open>json.loads\<close> returns a value, raises \<open>JSONDecodeError\<close>, or raises another exception:
  \<open>RecursionError\<close> when the containers nest deeper than the interpreter allows, and
  \<open>ValueError\<close> when an integer literal has more digits than \<open>sys.int_max_str_digits\<close>
  (4300 by default, 0 for no limit). The interpreter is a parameter: \<open>float_of\<close> is
  \<open>float\<close> on a number lexeme followed by \<open>repr\<close>, \<open>recursion_budget\<close> the number of
  nested containers \<open>json.loads\<close> may enter, \<open>str_exc e s\<close> the text \<open>str(e)\<close> of the
  exception of kind \<open>e\<close> that \<open>json.loads\<close> raises on the text \<open>s\<close>.
\<close>

datatype exn = RecursionError | ValueError

datatype 'a parsed = Parsed 'a | JSONDecodeError | Raised exn

record interp =
  float_of :: "pystr \<Rightarrow> pystr"
  recursion_budget :: nat
  int_max_str_digits :: nat
  str_exc :: "exn \<Rightarrow> pystr \<Rightarrow> pystr"

definition match_number :: "pystr \<Rightarrow> (pystr \<times> pystr \<times> pystr) option" where
  \<comment> \<open>the groups of \<open>(-?(?:0|[1-9][0-9]*))(\\.[0-9]+)?([eE][-+]?[0-9]+)?\<close> at the start of the
      text, \<open>None\<close> when the pattern does not match\<close>
  "match_number s =
     (let integer = int_group s;
          s2 = drop (length integer) s;
          frac_g = frac_group s2;
          exp_g = exp_group (drop (length frac_g) s2)
      in if integer = [] then None else Some (integer, frac_g, exp_g))"

definition number_value :: "interp \<Rightarrow> pystr \<times> pystr \<times> pystr \<Rightarrow> json parsed" where
  \<comment> \<open>\<open>float(integer + frac + exp)\<close> when there is a fraction or an exponent, else
      \<open>int(integer)\<close>, which counts the digits of a literal of more than 640 and refuses
      more than the limit\<close>
  "number_value I groups =
     (case groups of (integer, frac_g, exp_g) \<Rightarrow>
        if frac_g \<noteq> [] \<or> exp_g \<noteq> [] then Parsed (JFloat (float_of I (integer @ frac_g @ exp_g)))
        else if 640 < length (filter is_digit integer)
                \<and> int_max_str_digits I \<noteq> 0
                \<and> int_max_str_digits I < length (filter is_digit integer)
        then Raised ValueError
        else Parsed (JInt (int_of_lexeme integer)))"

fun dict_set :: "(pystr \<times> json) list \<Rightarrow> pystr \<Rightarrow> json \<Rightarrow> (pystr \<times> json) list" where
  "dict_set [] k v = [(k, v)]"
| "dict_set ((k', v') # d) k v = (if k' = k then (k, v) # d else (k', v') # dict_set d k v)"

definition dict_of_pairs :: "(pystr \<times> json) list \<Rightarrow> (pystr \<times> json) list" where
  "dict_of_pairs pairs = foldl (\<lambda>d kv. dict_set d (fst kv) (snd kv)) [] pairs"

lemma skip_ws_length: "length (skip_ws s) \<le> length s"
  by (simp add: skip_ws_def length_dropWhile_le)

lemma skip_ws_Cons_length [termination_simp]:
  "skip_ws s = c # r \<Longrightarrow> length r < length s"
  using skip_ws_length[of s] by simp

lemma skip_ws_measure:
  "length x < n \<Longrightarrow> 2 * length (skip_ws x) < Suc (2 * n)"
  "length x < n \<Longrightarrow> 2 * length (skip_ws x) < 2 * n"
  "length x < n \<Longrightarrow> length (skip_ws x) < n"
  using skip_ws_length[of x] by simp_all

function scan_once :: "interp \<Rightarrow> nat \<Rightarrow> pystr \<Rightarrow> (json \<times> pystr) parsed"
  and array_items :: "interp \<Rightarrow> nat \<Rightarrow> pystr \<Rightarrow> (json list \<times> pystr) parsed"
  and object_members :: "interp \<Rightarrow> nat \<Rightarrow> pystr \<Rightarrow> ((pystr \<times> json) list \<times> pystr) parsed"
where
  "scan_once I depth s =
     (case s of
        [] \<Rightarrow> JSONDecodeError
      | c # r \<Rightarrow>
          if c = 34 then
            (case scanstring r of None \<Rightarrow> JSONDecodeError | Some (t, r1) \<Rightarrow> Parsed (JStr t, r1))
          else if c = 123 then
            (if depth = 0 then Raised RecursionError
             else
               (case skip_ws r of
                  [] \<Rightarrow> JSONDecodeError
                | c1 # r1 \<Rightarrow>
                    if c1 = 125 then Parsed (JObj [], r1)
                    else if c1 = 34 then
                      (case object_members I (depth - 1) r1 of
                         Parsed (pairs, r2) \<Rightarrow> Parsed (JObj (dict_of_pairs pairs), r2)
                       | JSONDecodeError \<Rightarrow> JSONDecodeError
                       | Raised e \<Rightarrow> Raised e)
                    else JSONDecodeError))
          else if c = 91 then
            (if depth = 0 then Raised RecursionError
             else
               (case skip_ws r of
                  [] \<Rightarrow> JSONDecodeError
                | c1 # r1 \<Rightarrow>
                    if c1 = 93 then Parsed (JArr [], r1)
                    else (case array_items I (depth - 1) (c1 # r1) of
                            Parsed (vs, r2) \<Rightarrow> Parsed (JArr vs, r2)
                          | JSONDecodeError \<Rightarrow> JSONDecodeError
                          | Raised e \<Rightarrow> Raised e)))
          else if c = 110 \<and> startswith s (lit ''null'') then Parsed (JNull, drop 4 s)
          else if c = 116 \<and> startswith s (lit ''true'') then Parsed (JBool True, drop 4 s)
          else if c = 102 \<and> startswith s (lit ''false'') then Parsed (JBool False, drop 5 s)
          else
            (case match_number s of
               Some (integer, frac_g, exp_g) \<Rightarrow>
                 (case number_value I (integer, frac_g, exp_g) of
                    Parsed v \<Rightarrow> Parsed (v, drop (length integer + length frac_g + length exp_g) s)
                  | JSONDecodeError \<Rightarrow> JSONDecodeError
                  | Raised e \<Rightarrow> Raised e)
             | None \<Rightarrow>
                 if c = 78 \<and> startswith s (lit ''NaN'') then Parsed (JFloat (lit ''nan''), drop 3 s)
                 else if c = 73 \<and> startswith s (lit ''Infinity'')
                   then Parsed (JFloat (lit ''inf''), drop 8 s)
                 else if c = 45 \<and> startswith s (lit ''-Infinity'')
                   then Parsed (JFloat (lit ''-inf''), drop 9 s)
                 else JSONDecodeError))"
| "array_items I depth s =
     (case scan_once I depth s of
        JSONDecodeError \<Rightarrow> JSONDecodeError
      | Raised e \<Rightarrow> Raised e
      | Parsed (v, r) \<Rightarrow>
          (case skip_ws r of
             [] \<Rightarrow> JSONDecodeError
           | c # r1 \<Rightarrow>
               if c = 93 then Parsed ([v], r1)
               else if c = 44 then
                 (if length r1 < length s then
                    (case array_items I depth (skip_ws r1) of
                       Parsed (vs, r2) \<Rightarrow> Parsed (v # vs, r2)
                     | JSONDecodeError \<Rightarrow> JSONDecodeError
                     | Raised e \<Rightarrow> Raised e)
                  else JSONDecodeError)
               else JSONDecodeError))"
| "object_members I depth s =
     (case scanstring s of
        None \<Rightarrow> JSONDecodeError
      | Some (key, r) \<Rightarrow>
          (case skip_ws r of
             [] \<Rightarrow> JSONDecodeError
           | c # r1 \<Rightarrow>
               if c \<noteq> 58 \<or> \<not> length r1 < length s then JSONDecodeError
               else
                 (case scan_once I depth (skip_ws r1) of
                    JSONDecodeError \<Rightarrow> JSONDecodeError
                  | Raised e \<Rightarrow> Raised e
                  | Parsed (v, r2) \<Rightarrow>
                      (case skip_ws r2 of
                         [] \<Rightarrow> JSONDecodeError
                       | c2 # r3 \<Rightarrow>
                           if c2 = 125 then Parsed ([(key, v)], r3)
                           else if c2 = 44 then
                             (case skip_ws r3 of
                                [] \<Rightarrow> JSONDecodeError
                              | c3 # r4 \<Rightarrow>
                                  if c3 = 34 \<and> length r4 < length s then
                                    (case object_members I depth r4 of
                                       Parsed (pairs, r5) \<Rightarrow> Parsed ((key, v) # pairs, r5)
                                     | JSONDecodeError \<Rightarrow> JSONDecodeError
                                     | Raised e \<Rightarrow> Raised e)
                                  else JSONDecodeError)
                           else JSONDecodeError))))"
  by pat_completeness auto
termination
  by (relation "measure (\<lambda>x. case x of
          Inl (I, d, s) \<Rightarrow> 2 * length s
        | Inr (Inl (I, d, s)) \<Rightarrow> 2 * length s + 1
        | Inr (Inr (I, d, s)) \<Rightarrow> 2 * length s + 1)")
     (auto dest!: skip_ws_Cons_length intro: skip_ws_measure)

text \<open>
  The tests \<open>length r < length s\<close> are there for the termination proof only: what is left
  after a value or a key is always shorter than the text it was read from.
\<close>

declare scan_once.simps [simp del] array_items.simps [simp del] object_members.simps [simp del]

definition json_loads :: "interp \<Rightarrow> pystr \<Rightarrow> json parsed" where
  "json_loads I s =
     (if take 1 s = [65279] then JSONDecodeError
      else (case scan_once I (recursion_budget I) (skip_ws s) of
              Parsed (obj, r) \<Rightarrow> if skip_ws r = [] then Parsed obj else JSONDecodeError
            | JSONDecodeError \<Rightarrow> JSONDecodeError
            | Raised e \<Rightarrow> Raised e))"

section \<open>Extraction Client: \<open>extract_chart\<close>\<close>

definition is_space :: "nat \<Rightarrow> bool" where
  \<comment> \<open>\<open>str.isspace\<close> on one code point; \<open>\\s\<close> of \<open>re\<close> on a \<open>str\<close> is the same set\<close>
  "is_space c =
     ((9 \<le> c \<and> c \<le> 13) \<or> (28 \<le> c \<and> c \<le> 32) \<or> c = 133 \<or> c = 160 \<or> c = 5760
      \<or> (8192 \<le> c \<and> c \<le> 8202) \<or> c = 8232 \<or> c = 8233 \<or> c = 8239 \<or> c = 8287 \<or> c = 12288)"

definition rstrip :: "pystr \<Rightarrow> pystr" where
  "rstrip s = rev (dropWhile is_space (rev s))"

definition strip :: "pystr \<Rightarrow> pystr" where
  "strip s = rstrip (dropWhile is_space s)"

definition strip_leading_fence :: "pystr \<Rightarrow> pystr" where
  \<comment> \<open>\<open>re.sub(r"^```(?:json)?\\s*", "", text)\<close>\<close>
  "strip_leading_fence text =
     (if startswith text (lit ''```'') then
        (let r = drop 3 text;
             r = (if startswith r (lit ''json'') then drop 4 r else r)
         in dropWhile is_space r)
      else text)"

definition strip_trailing_fence :: "pystr \<Rightarrow> pystr" where
  \<comment> \<open>\<open>re.sub(r"\\s*```$", "", text)\<close>; \<open>$\<close> matches at the end, and before a newline that
      ends the text\<close>
  "strip_trailing_fence text =
     (if endswith text (lit ''```'') then rstrip (take (length text - 3) text)
      else if endswith text (lit ''```'' @ [10]) then rstrip (take (length text - 4) text) @ [10]
      else text)"

definition salvage_span :: "pystr \<Rightarrow> pystr option" where
  \<comment> \<open>\<open>re.search(r"\\{.*\\}", text, re.DOTALL)\<close>: from the first \<open>{\<close> to the last \<open>}\<close> after it\<close>
  "salvage_span text =
     (let from_brace = dropWhile (\<lambda>c. c \<noteq> 123) text;
          matched = rev (dropWhile (\<lambda>c. c \<noteq> 125) (rev from_brace))
      in if matched = [] then None else Some matched)"

datatype content_block = TextBlock pystr | OtherBlock

datatype provider_outcome = Final "content_block list" | RaisedDecodeError | RaisedOther pystr

record extract_request =
  image :: pystr
  image_media_type :: pystr

fun first_text :: "content_block list \<Rightarrow> pystr" where
  \<comment> \<open>\<open>next((b.text for b in final.content if b.type == "text"), "{}")\<close>\<close>
  "first_text [] = lit ''{}''"
| "first_text (TextBlock t # bs) = t"
| "first_text (OtherBlock # bs) = first_text bs"

definition fallback_doc :: json where
  "fallback_doc =
     JObj [(lit ''has_charts'', JBool False), (lit ''confidence'', JFloat (lit ''0.0'')),
           (lit ''charts'', JArr [])]"

definition response_text :: "content_block list \<Rightarrow> pystr" where
  \<comment> \<open>the text handed to \<open>json.loads\<close>: stripped, then without its fences\<close>
  "response_text blocks = strip_trailing_fence (strip_leading_fence (strip (first_text blocks)))"

text \<open>
  The first \<open>json.loads\<close> stands under \<open>except json.JSONDecodeError\<close> and
  \<open>except Exception\<close>: its \<open>JSONDecodeError\<close> starts the salvage, any other exception it
  raises becomes the status 500 with the exception's text. The second one stands under
  \<open>except Exception: pass\<close>, so whatever it raises gives the fallback document.
\<close>

definition extract_chart ::
  "interp \<Rightarrow> extract_request \<Rightarrow> provider_outcome \<Rightarrow> failure + json" where
  "extract_chart I request outcome =
     (if image request = [] then Inl (HTTPException 400 (lit ''Empty image data''))
      else
        (case outcome of
           RaisedOther e \<Rightarrow> Inl (HTTPException 500 (lit ''Extraction failed: '' @ e))
         | RaisedDecodeError \<Rightarrow> Inl Uncaught
         | Final blocks \<Rightarrow>
             (let text = response_text blocks
              in case json_loads I text of
                   Parsed doc \<Rightarrow> Inr doc
                 | Raised e \<Rightarrow> Inl (HTTPException 500 (lit ''Extraction failed: '' @ str_exc I e text))
                 | JSONDecodeError \<Rightarrow>
                     (case salvage_span text of
                        None \<Rightarrow> Inr fallback_doc
                      | Some matched \<Rightarrow>
                          (case json_loads I matched of
                             Parsed doc \<Rightarrow> Inr doc
                           | JSONDecodeError \<Rightarrow> Inr fallback_doc
                           | Raised e \<Rightarrow> Inr fallback_doc)))))"

section \<open>Export Serializer: \<open>safe_sheet_name\<close> and \<open>export_data\<close>\<close>

text \<open>
  \<open>safe_sheet_name\<close> loops while the candidate is taken. The loop ends because the
  candidates \<open>base_1, base_2, ...\<close> are pairwise different and \<open>existing\<close> is finite.
\<close>

declare digits.simps [simp del]

lemma digits_val_snoc: "digits_val (ds @ [c]) = 10 * digits_val ds + (c - 48)"
  by (simp add: digits_val_def)

lemma digits_val_digits: "digits_val (digits n) = n"
proof (induction n rule: digits.induct)
  case (1 n)
  show ?case
  proof (cases "n < 10")
    case True
    then show ?thesis by (simp add: digits.simps[of n] digits_val_def)
  next
    case False
    with 1 show ?thesis by (simp add: digits.simps[of n] digits_val_snoc)
  qed
qed

lemma digits_inj: "digits m = digits n \<Longrightarrow> m = n"
  by (metis digits_val_digits)

lemma fresh_suffix_exists: "\<exists>k\<ge>suffix. base @ [95] @ digits k \<notin> set (existing :: pystr list)"
proof (rule ccontr)
  assume "\<not> ?thesis"
  then have sub: "(\<lambda>k. base @ [95] @ digits k) ` {suffix..} \<subseteq> set existing" by auto
  have "inj_on (\<lambda>k. base @ [95] @ digits k) {suffix..}"
    by (auto simp: inj_on_def dest: digits_inj)
  then have "infinite ((\<lambda>k. base @ [95] @ digits k) ` {suffix..})"
    using infinite_Ici finite_imageD by blast
  then show False using sub finite_subset by blast
qed

function name_loop :: "pystr \<Rightarrow> pystr list \<Rightarrow> pystr \<Rightarrow> nat \<Rightarrow> pystr" where
  "name_loop base existing candidate suffix =
     (if candidate \<in> set existing
      then name_loop base existing (base @ [95] @ digits suffix) (suffix + 1)
      else candidate)"
  by pat_completeness auto
termination
proof (relation "measure (\<lambda>(base, existing, candidate, suffix).
          if candidate \<in> set existing
          then 1 + ((LEAST k. suffix \<le> k \<and> base @ [95] @ digits k \<notin> set existing) - suffix)
          else 0)", goal_cases)
  case 1
  then show ?case by simp
next
  case (2 base existing candidate suffix)
  let ?P = "\<lambda>s k. s \<le> k \<and> base @ [95] @ digits k \<notin> set existing"
  show ?case
  proof (cases "base @ [95] @ digits suffix \<in> set existing")
    case False
    with 2 show ?thesis by simp
  next
    case True
    obtain k where k: "?P (suffix + 1) k" using fresh_suffix_exists[of "suffix + 1"] by blast
    have eq: "?P suffix j \<longleftrightarrow> ?P (suffix + 1) j" for j
      using True by (cases "j = suffix") auto
    then have L: "(LEAST j. ?P suffix j) = (LEAST j. ?P (suffix + 1) j)" by simp
    have "?P (suffix + 1) (LEAST j. ?P (suffix + 1) j)" using k by (rule LeastI)
    then have "suffix + 1 \<le> (LEAST j. ?P (suffix + 1) j)" by blast
    with 2 True L show ?thesis by simp
  qed
qed

declare name_loop.simps [simp del]

definition safe_sheet_name :: "pystr \<Rightarrow> pystr list \<Rightarrow> pystr" where
  "safe_sheet_name name existing =
     (let cleaned = map (\<lambda>c. if c \<in> {92, 47, 42, 63, 58, 91, 93} then 95 else c) name;
          base = (if take 28 cleaned = [] then lit ''Chart'' else take 28 cleaned)
      in name_loop base existing base 1)"

fun truthy :: "json \<Rightarrow> bool" where
  "truthy JNull = False"
| "truthy (JBool b) = b"
| "truthy (JInt i) = (i \<noteq> 0)"
| "truthy (JFloat r) = (r \<noteq> lit ''0.0'' \<and> r \<noteq> lit ''-0.0'')"
| "truthy (JStr s) = (s \<noteq> [])"
| "truthy (JArr vs) = (vs \<noteq> [])"
| "truthy (JObj kvs) = (kvs \<noteq> [])"

definition dict_get :: "(pystr \<times> json) list \<Rightarrow> pystr \<Rightarrow> json \<Rightarrow> json" where
  \<comment> \<open>\<open>d.get(key, default)\<close>\<close>
  "dict_get d key dflt = (case map_of d key of None \<Rightarrow> dflt | Some v \<Rightarrow> v)"

definition py_or :: "json \<Rightarrow> json \<Rightarrow> json" where
  "py_or a b = (if truthy a then a else b)"

text \<open>
  What the export takes from outside the repository: \<open>repr\<close> of a list or a dict,
  \<open>str.isalnum\<close> above ASCII (for \<open>\\w\<close>), \<open>str.title\<close>, openpyxl writing the
  workbook (\<open>None\<close> when it raises, as it does for a cell value it cannot store), and
  whether \<open>json.dumps\<close> raises on a value: its encoder walks the value with nested
  generators and raises \<open>RecursionError\<close> when the interpreter's stack does not hold the
  nesting. The charts are the values the request's JSON parser built, so every \<open>int\<close> is
  within the interpreter's digit limit and \<open>str\<close> of it does not raise.
\<close>

record sheet =
  sheet_title :: pystr
  sheet_rows :: "json list list"

record runtime =
  container_repr :: "json \<Rightarrow> pystr"
  isalnum_high :: "nat \<Rightarrow> bool"
  str_title :: "pystr \<Rightarrow> pystr"
  workbook_save :: "sheet list \<Rightarrow> bytes option"
  dumps_raises :: "json \<Rightarrow> bool"

fun py_str :: "runtime \<Rightarrow> json \<Rightarrow> pystr" where
  \<comment> \<open>\<open>str(v)\<close>, as an f-string formats \<open>{v}\<close>\<close>
  "py_str R JNull = lit ''None''"
| "py_str R (JBool b) = (if b then lit ''True'' else lit ''False'')"
| "py_str R (JInt i) = str_int i"
| "py_str R (JFloat r) = r"
| "py_str R (JStr s) = s"
| "py_str R (JArr vs) = container_repr R (JArr vs)"
| "py_str R (JObj kvs) = container_repr R (JObj kvs)"

subsection \<open>\<open>csv.writer\<close> with the default dialect\<close>

definition csv_field :: "runtime \<Rightarrow> json \<Rightarrow> pystr" where
  "csv_field R v =
     (let s = (case v of JNull \<Rightarrow> [] | JStr s \<Rightarrow> s | _ \<Rightarrow> py_str R v)
      in if \<exists>c \<in> set s. c = 44 \<or> c = 34 \<or> c = 13 \<or> c = 10
         then [34] @ concat (map (\<lambda>c. if c = 34 then [34, 34] else [c]) s) @ [34]
         else s)"

definition writerow :: "runtime \<Rightarrow> json list \<Rightarrow> pystr" where
  "writerow R row =
     (let line = join [44] (map (csv_field R) row)
      in (if length row = 1 \<and> line = [] then [34, 34] else line) @ [13, 10])"

subsection \<open>UTF-8\<close>

definition utf8_char :: "nat \<Rightarrow> bytes option" where
  "utf8_char c =
     (if c < 128 then Some [c]
      else if c < 2048 then Some [192 + c div 64, 128 + c mod 64]
      else if 55296 \<le> c \<and> c \<le> 57343 then None
      else if c < 65536 then Some [224 + c div 4096, 128 + (c div 64) mod 64, 128 + c mod 64]
      else if c < 1114112 then
        Some [240 + c div 262144, 128 + (c div 4096) mod 64, 128 + (c div 64) mod 64, 128 + c mod 64]
      else None)"

fun utf8_encode :: "pystr \<Rightarrow> bytes option" where
  \<comment> \<open>\<open>s.encode()\<close>: a surrogate code point raises \<open>UnicodeEncodeError\<close>\<close>
  "utf8_encode [] = Some []"
| "utf8_encode (c # s) =
     (case utf8_char c of
        None \<Rightarrow> None
      | Some bs \<Rightarrow> (case utf8_encode s of None \<Rightarrow> None | Some rest \<Rightarrow> Some (bs @ rest)))"

subsection \<open>The rows of one chart\<close>

fun series_value :: "(pystr \<times> json) list \<Rightarrow> json \<Rightarrow> json option" where
  \<comment> \<open>\<open>vals.get(s, "")\<close>: a list or a dict is not hashable; a key that is no string is absent\<close>
  "series_value vals (JStr s) = Some (dict_get vals s (JStr []))"
| "series_value vals (JArr vs) = None"
| "series_value vals (JObj kvs) = None"
| "series_value vals s = Some (JStr [])"

fun all_some :: "'a option list \<Rightarrow> 'a list option" where
  "all_some [] = Some []"
| "all_some (None # xs) = None"
| "all_some (Some x # xs) = (case all_some xs of None \<Rightarrow> None | Some ys \<Rightarrow> Some (x # ys))"

definition data_row :: "json list \<Rightarrow> json \<Rightarrow> json list option" where
  \<comment> \<open>one iteration of \<open>for row in data\<close>; \<open>None\<close> when it raises\<close>
  "data_row series row =
     (case row of
        JObj r \<Rightarrow>
          (if series \<noteq> [] then
             (case py_or (dict_get r (lit ''values'') JNull) (JObj []) of
                JObj vals \<Rightarrow>
                  (case all_some (map (series_value vals) series) of
                     None \<Rightarrow> None
                   | Some cells \<Rightarrow> Some (dict_get r (lit ''label'') (JStr []) # cells))
              | _ \<Rightarrow> None)
           else Some [dict_get r (lit ''label'') (JStr []), dict_get r (lit ''value'') (JStr [])])
      | _ \<Rightarrow> None)"

definition table_rows :: "runtime \<Rightarrow> json \<Rightarrow> json \<Rightarrow> json \<Rightarrow> json list list option" where
  \<comment> \<open>the header row and the data rows, the same in the CSV and the spreadsheet branch\<close>
  "table_rows R unit series points =
     (let header =
            (if truthy series
             then (case series of JArr ss \<Rightarrow> Some (JStr (lit ''Category'') # ss) | _ \<Rightarrow> None)
             else Some [JStr (lit ''Category''),
                        JStr (if truthy unit then lit ''Value ('' @ py_str R unit @ lit '')''
                              else lit ''Value'')]);
          rows =
            (case points of
               JArr rs \<Rightarrow> all_some (map (data_row (case series of JArr ss \<Rightarrow> ss | _ \<Rightarrow> [])) rs)
             | _ \<Rightarrow> None)
      in case (header, rows) of (Some h, Some rs) \<Rightarrow> Some (h # rs) | _ \<Rightarrow> None)"

definition chart_title :: "nat \<Rightarrow> (pystr \<times> json) list \<Rightarrow> json" where
  "chart_title i chart =
     py_or (dict_get chart (lit ''title'') JNull) (JStr (lit ''Chart '' @ str_int (int i + 1)))"

definition csv_chart :: "runtime \<Rightarrow> nat \<Rightarrow> (pystr \<times> json) list \<Rightarrow> json list list option" where
  \<comment> \<open>the rows the CSV branch writes for chart \<open>i\<close>; \<open>None\<close> when the loop body raises\<close>
  "csv_chart R i chart =
     (let title = chart_title i chart;
          ctype = dict_get chart (lit ''type'') (JStr (lit ''unknown''));
          unit = dict_get chart (lit ''unit'') (JStr []);
          series = py_or (dict_get chart (lit ''series'') JNull) (JArr []);
          data = py_or (dict_get chart (lit ''data'') JNull) (JArr [])
      in case table_rows R unit series data of
           None \<Rightarrow> None
         | Some table \<Rightarrow>
             Some ((if i \<noteq> 0 then [[]] else [])
                   @ [[JStr (lit ''Chart: '' @ py_str R title), JStr (lit ''Type: '' @ py_str R ctype),
                       JStr (lit ''Unit: '' @ py_str R unit)], []]
                   @ table))"

definition csv_text :: "runtime \<Rightarrow> (pystr \<times> json) list list \<Rightarrow> pystr option" where
  "csv_text R charts =
     (case all_some (map (\<lambda>(i, chart). csv_chart R i chart) (enumerate 0 charts)) of
        None \<Rightarrow> None
      | Some blocks \<Rightarrow> Some (concat (map (writerow R) (concat blocks))))"

subsection \<open>The sheets of the workbook\<close>

definition xlsx_chart ::
  "runtime \<Rightarrow> pystr list \<Rightarrow> nat \<Rightarrow> (pystr \<times> json) list \<Rightarrow> sheet option" where
  \<comment> \<open>the sheet the spreadsheet branch builds for chart \<open>i\<close> (cell values only, no styles,
      no column widths); \<open>None\<close> when the loop body raises\<close>
  "xlsx_chart R existing_sheets i chart =
     (let title = chart_title i chart;
          ctype = dict_get chart (lit ''type'') (JStr (lit ''unknown''));
          unit = dict_get chart (lit ''unit'') (JStr []);
          series = py_or (dict_get chart (lit ''series'') JNull) (JArr []);
          data = py_or (dict_get chart (lit ''data'') JNull) (JArr [])
      in case (title, ctype, table_rows R unit series data) of
           (JStr t, JStr ct, Some table) \<Rightarrow>
             Some \<lparr>sheet_title = safe_sheet_name t existing_sheets,
                   sheet_rows =
                     [[JStr (lit ''Chart''), title],
                      [JStr (lit ''Type''),
                       JStr (str_title R (map (\<lambda>c. if c = 95 then 32 else c) ct))],
                      [JStr (lit ''Unit''), unit],
                      []] @ table\<rparr>
         | _ \<Rightarrow> None)"

fun xlsx_loop ::
  "runtime \<Rightarrow> pystr list \<Rightarrow> nat \<Rightarrow> (pystr \<times> json) list list \<Rightarrow> sheet list option" where
  "xlsx_loop R existing_sheets i [] = Some []"
| "xlsx_loop R existing_sheets i (chart # charts) =
     (case xlsx_chart R existing_sheets i chart of
        None \<Rightarrow> None
      | Some ws \<Rightarrow>
          (case xlsx_loop R (existing_sheets @ [sheet_title ws]) (i + 1) charts of
             None \<Rightarrow> None
           | Some rest \<Rightarrow> Some (ws # rest)))"

subsection \<open>\<open>export_data\<close>\<close>

record export_request =
  charts :: "(pystr \<times> json) list list"
  format :: pystr
  export_filename :: pystr

record export_response =
  body :: bytes
  response_media_type :: pystr
  content_disposition :: pystr

definition word_char :: "runtime \<Rightarrow> nat \<Rightarrow> bool" where
  \<comment> \<open>the class \<open>[\\w\\-_]\<close>\<close>
  "word_char R c =
     ((48 \<le> c \<and> c \<le> 57) \<or> (65 \<le> c \<and> c \<le> 90) \<or> (97 \<le> c \<and> c \<le> 122) \<or> c = 95 \<or> c = 45
      \<or> (128 \<le> c \<and> isalnum_high R c))"

definition attachment :: "pystr \<Rightarrow> pystr \<Rightarrow> pystr" where
  "attachment fn ext = lit ''attachment; filename='' @ [34] @ fn @ ext @ [34]"

definition export_data :: "runtime \<Rightarrow> export_request \<Rightarrow> failure + export_response" where
  "export_data R request =
     (if charts request = [] then Inl (HTTPException 400 (lit ''No charts provided for export.''))
      else
        let fmt = lower (format request);
            cleaned = map (\<lambda>c. if word_char R c then c else 95) (export_filename request);
            fn = (if cleaned = [] then lit ''chart_data'' else cleaned)
        in if fmt = lit ''json'' then
             (if dumps_raises R (JArr (map JObj (charts request))) then Inl Uncaught
              else
                (case utf8_encode (iterencode 0 (JArr (map JObj (charts request)))) of
                   None \<Rightarrow> Inl Uncaught
                 | Some payload \<Rightarrow>
                     Inr \<lparr>body = payload, response_media_type = lit ''application/json'',
                          content_disposition = attachment fn (lit ''.json'')\<rparr>))
           else if fmt = lit ''csv'' then
             (case csv_text R (charts request) of
                None \<Rightarrow> Inl Uncaught
              | Some text \<Rightarrow>
                  (case utf8_encode text of
                     None \<Rightarrow> Inl Uncaught
                   | Some csv_bytes \<Rightarrow>
                       Inr \<lparr>body = [239, 187, 191] @ csv_bytes, response_media_type = lit ''text/csv'',
                            content_disposition = attachment fn (lit ''.csv'')\<rparr>))
           else if fmt = lit ''xlsx'' then
             (case xlsx_loop R [] 0 (charts request) of
                None \<Rightarrow> Inl Uncaught
              | Some wb \<Rightarrow>
                  (case workbook_save R wb of
                     None \<Rightarrow> Inl Uncaught
                   | Some out \<Rightarrow>
                       Inr \<lparr>body = out,
                            response_media_type =
                              lit ''application/vnd.openxmlformats-officedocument.spreadsheetml.sheet'',
                            content_disposition = attachment fn (lit ''.xlsx'')\<rparr>))
           else Inl (HTTPException 400
                  (lit ''Unknown format '' @ [39] @ fmt @ [39] @ lit ''. Use xlsx, csv, or json.'')))"

subsection \<open>Inputs used in the statements below\<close>

definition sales_chart :: "(pystr \<times> json) list" where
  "sales_chart =
     [(lit ''title'', JStr (lit ''Sales'')), (lit ''unit'', JStr (lit ''$'')),
      (lit ''data'', JArr [JObj [(lit ''label'', JStr (lit ''Jan'')), (lit ''value'', JInt 100)]])]"

definition long_title :: pystr where
  "long_title = replicate 28 65"

definition long_chart :: "(pystr \<times> json) list" where
  "long_chart = [(lit ''title'', JStr long_title)]"

definition taken :: "nat \<Rightarrow> pystr list" where
  \<comment> \<open>the names of the first \<open>n\<close> sheets of charts all titled \<open>long_title\<close>\<close>
  "taken n = (if n = 0 then [] else long_title # map (\<lambda>k. long_title @ [95] @ digits k) [1..<n])"

section \<open>Reading the JSON export back\<close>











section \<open>Properties of the Image Normalizer\<close>

lemma pow_facts:
  "(1::real) / 2 ^ 1022 \<le> 1 / 2 ^ 33" "(2::real) ^ 52 \<le> 2 ^ 1023"
  "(1::real) / 2 ^ 53 \<le> 1 / 2" "(1::real) \<le> 2 ^ 1023" "(1::real) / 2 ^ 1022 \<le> 1 / 2 ^ 31"
  "(1::real) / 2 ^ 1022 \<le> 1 / 2 ^ 32"
  by (simp_all add: frac_le power_increasing)

lemma scaled_le:
  assumes r: "binary64_rounding rnd" and m: "m < 2 ^ 51" and mM: "m < M" and M: "M < 2 ^ 31"
    and d: "d \<le> M"
  shows "scaled rnd m M d \<le> m"
proof (cases "m = 0 \<or> d = 0")
  case True
  then have "rnd (real d * rnd (real m / real M)) = 0"
    using r by (auto simp: binary64_rounding_def)
  then show ?thesis by (simp add: scaled_def)
next
  case False
  then have m1: "1 \<le> real m" and d1: "1 \<le> real d" by auto
  define u :: real where "u = 1 / 2 ^ 53"
  have u0: "0 < u" and u1: "u \<le> 1 / 2" by (simp_all add: u_def)
  have acc: "x * (1 - u) \<le> rnd x \<and> rnd x \<le> x * (1 + u)"
    if "1 / 2 ^ 1022 \<le> x" "x \<le> 2 ^ 1023" for x
    using r that unfolding binary64_rounding_def u_def by blast
  let ?x1 = "real m / real M"
  have Mpos: "0 < real M" using mM by simp
  have Mr: "real M \<le> 2 ^ 31" using M
    by (metis less_imp_le of_nat_le_iff of_nat_numeral of_nat_power)
  have mr: "real m \<le> 2 ^ 51" using m
    by (metis less_imp_le of_nat_le_iff of_nat_numeral of_nat_power)
  have x1_lo: "1 / 2 ^ 31 \<le> ?x1"
    using m1 Mr Mpos by (simp add: frac_le)
  have x1_hi: "?x1 \<le> 1" using mM Mpos by simp
  have q: "?x1 * (1 - u) \<le> rnd ?x1 \<and> rnd ?x1 \<le> ?x1 * (1 + u)"
    using acc[of ?x1] x1_lo x1_hi pow_facts by linarith
  let ?q = "rnd ?x1"
  have q_lo: "1 / 2 ^ 32 \<le> ?q"
  proof -
    have "(1::real) / 2 ^ 32 = 1 / 2 ^ 31 * (1 / 2)" by simp
    also have "\<dots> \<le> ?x1 * (1 - u)"
      using x1_lo u1 by (intro mult_mono) auto
    also have "\<dots> \<le> ?q" using q by blast
    finally show ?thesis .
  qed
  have dq_hi: "real d * ?q \<le> real m * (1 + u)"
  proof -
    have "real d * ?q \<le> real M * (?x1 * (1 + u))"
      using d q q_lo by (intro mult_mono) auto
    also have "\<dots> = real m * (1 + u)" using Mpos by simp
    finally show ?thesis .
  qed
  have dq_lo: "1 / 2 ^ 32 \<le> real d * ?q"
  proof -
    have "(1::real) / 2 ^ 32 = 1 * (1 / 2 ^ 32)" by simp
    also have "\<dots> \<le> real d * ?q"
      using d1 q_lo by (intro mult_mono) auto
    finally show ?thesis .
  qed
  have "real m * (1 + u) \<le> 2 ^ 51 * 2"
    using mr u1 u0 by (intro mult_mono) auto
  then have dq_hi': "real d * ?q \<le> 2 ^ 1023"
    using dq_hi pow_facts(2) by simp
  have "1 / 2 ^ 1022 \<le> real d * ?q"
    using dq_lo pow_facts(6) by linarith
  from acc[OF this dq_hi'] have "rnd (real d * ?q) \<le> real d * ?q * (1 + u)" by blast
  also have "\<dots> \<le> real m * (1 + u) * (1 + u)"
    using dq_hi u0 by (intro mult_right_mono) auto
  also have "\<dots> = real m + real m * (2 * u + u * u)" by (simp add: algebra_simps)
  also have "\<dots> < real m + 1"
  proof -
    have "2 * u + u * u \<le> 3 * u" using u0 u1 by (simp add: mult_left_le)
    then have "real m * (2 * u + u * u) \<le> 2 ^ 51 * (3 * u)"
      using mr u0 by (intro mult_mono) auto
    also have "\<dots> < 1" by (simp add: u_def)
    finally show ?thesis by simp
  qed
  finally have "rnd (real d * ?q) < real m + 1" .
  then have "\<lfloor>rnd (real d * ?q)\<rfloor> < int m + 1"
    unfolding floor_less_iff by simp
  then have "\<lfloor>rnd (real d * ?q)\<rfloor> \<le> int m" by simp
  then show ?thesis by (simp add: scaled_def)
qed

lemma sample_rounding: "binary64_rounding (fl sample_env)"
proof -
  have "x * (1 - 1 / 2 ^ 53) \<le> x \<and> x \<le> x * (1 + 1 / 2 ^ 53)" if "1 / 2 ^ 1022 \<le> x" for x :: real
  proof -
    have "0 \<le> x" using that by (smt (verit) divide_nonneg_nonneg zero_le_power)
    then show ?thesis by (simp add: mult_le_cancel_left1 mult_le_cancel_left2 algebra_simps)
  qed
  then show ?thesis by (simp add: binary64_rounding_def sample_env_def)
qed

text \<open>
  Claim C4. For an image that decodes and is normalized without error, the saved image is
  at most \<open>max_side\<close> on its longer side, and an image whose longer side is at most
  \<open>max_side\<close> keeps its size. The scaled sides are computed in binary64, so the bound is
  proved for every rounding with the accuracy of \<open>binary64_rounding\<close>, for a threshold
  below \<open>2\<^sup>5\<^sup>1\<close> (the default is 1400) and sides below \<open>2\<^sup>3\<^sup>1\<close> (Pillow's sizes are C ints).
\<close>

theorem compress_image_bounds:
  assumes rnd: "binary64_rounding (fl E)" and cap: "max_side < 2 ^ 51"
    and opened: "Image_open E image_bytes = Some img"
    and w: "fst (img_size img) < 2 ^ 31" and h: "snd (img_size img) < 2 ^ 31"
    and res: "compress_image E max_side image_bytes = Some (b64, mt)"
  shows "\<exists>out buf. normalized E max_side image_bytes = Some out \<and> save_JPEG E out = Some buf
           \<and> b64 = b64encode E buf
           \<and> max (fst (img_size out)) (snd (img_size out)) \<le> max_side
           \<and> (max (fst (img_size img)) (snd (img_size img)) \<le> max_side
                \<longrightarrow> img_size out = img_size img)"
proof -
  from res obtain out buf where out: "normalized E max_side image_bytes = Some out"
    and buf: "save_JPEG E out = Some buf" and b: "b64 = b64encode E buf"
    by (auto simp: compress_image_def split: option.splits)
  let ?w = "fst (img_size img)" and ?h = "snd (img_size img)"
  show ?thesis
  proof (cases "max ?w ?h > max_side")
    case True
    have M: "max ?w ?h < 2 ^ 31" using w h by simp
    have sw: "scaled (fl E) max_side (max ?w ?h) ?w \<le> max_side"
      by (rule scaled_le[OF rnd cap True M]) simp
    have sh: "scaled (fl E) max_side (max ?w ?h) ?h \<le> max_side"
      by (rule scaled_le[OF rnd cap True M]) simp
    from out opened True have
      "img_size out = (scaled (fl E) max_side (max ?w ?h) ?w, scaled (fl E) max_side (max ?w ?h) ?h)"
      by (auto simp: normalized_def Let_def split: option.splits if_splits)
    with sw sh True out buf b show ?thesis by auto
  next
    case False
    with out opened have "img_size out = img_size img"
      by (auto simp: normalized_def Let_def split: option.splits if_splits)
    with False out buf b show ?thesis by auto
  qed
qed

theorem compress_image_bounds_witness:
  "\<exists>out buf. normalized sample_env 1400 [2000, 1000] = Some out \<and> save_JPEG sample_env out = Some buf
     \<and> [1400, 700] = b64encode sample_env buf
     \<and> max (fst (img_size out)) (snd (img_size out)) \<le> 1400"
proof -
  have c: "compress_image sample_env 1400 [2000, 1000] = Some ([1400, 700], lit ''image/jpeg'')"
    by (simp add: compress_image_def normalized_def sample_env_def scaled_def Let_def lit_def)
  have o: "Image_open sample_env [2000, 1000] =
      Some \<lparr>img_mode = lit ''RGBA'', img_size = (2000, 1000), img_pixels = ()\<rparr>"
    by (simp add: sample_env_def)
  have cap: "(1400::nat) < 2 ^ 51" by simp
  have w: "fst (img_size \<lparr>img_mode = lit ''RGBA'', img_size = (2000::nat, 1000::nat), img_pixels = ()\<rparr>) < 2 ^ 31"
    by simp
  have h: "snd (img_size \<lparr>img_mode = lit ''RGBA'', img_size = (2000::nat, 1000::nat), img_pixels = ()\<rparr>) < 2 ^ 31"
    by simp
  from compress_image_bounds[OF sample_rounding cap o w h c] show ?thesis by blast
qed

section \<open>Properties of the Document Rasterizer\<close>

lemma compress_image_media_type:
  "compress_image E m b = Some (d, mt) \<Longrightarrow> mt = lit ''image/jpeg''"
  by (auto simp: compress_image_def split: option.splits)

lemma pdf_loop_media_type:
  "pdf_loop E doc idxs = Some imgs \<Longrightarrow> img \<in> set imgs \<Longrightarrow> media_type img = lit ''image/jpeg''"
proof (induction idxs arbitrary: imgs)
  case Nil
  then show ?case by simp
next
  case (Cons i idxs)
  then show ?case
    by (fastforce split: option.splits dest: compress_image_media_type)
qed

lemma slide_pictures_media_type:
  "img \<in> set (slide_pictures E n shapes) \<Longrightarrow> media_type img = lit ''image/jpeg''"
  by (induction E n shapes rule: slide_pictures.induct)
     (fastforce split: option.splits dest: compress_image_media_type)+

lemma slide_entry_media_type:
  "img \<in> set (slide_entry E n shapes) \<Longrightarrow> media_type img = lit ''image/jpeg''"
  by (auto simp: slide_entry_def Let_def split: if_splits
           dest: in_set_takeD slide_pictures_media_type)

lemma pptx_loop_media_type:
  "img \<in> set (pptx_loop E n slides) \<Longrightarrow> media_type img = lit ''image/jpeg''"
  by (induction slides arbitrary: n) (auto dest: slide_entry_media_type)

lemma endswith_last: "endswith s suffix \<Longrightarrow> suffix \<noteq> [] \<Longrightarrow> last s = last suffix"
  unfolding endswith_def
  by (metis append_take_drop_id last_appendR)

lemma pptx_not_other:
  assumes "endswith s (lit ''.pptx'')"
  shows "\<not> endswith s (lit ''.pdf'')"
    and "\<not> (\<exists>ext \<in> set [lit ''.png'', lit ''.jpg'', lit ''.jpeg'', lit ''.webp'', lit ''.gif'']. endswith s ext)"
proof -
  have x: "last s = 120" using endswith_last[OF assms] by (simp add: lit_def)
  show "\<not> endswith s (lit ''.pdf'')"
    using x endswith_last[of s "lit ''.pdf''"] by (auto simp: lit_def)
  show "\<not> (\<exists>ext \<in> set [lit ''.png'', lit ''.jpg'', lit ''.jpeg'', lit ''.webp'', lit ''.gif'']. endswith s ext)"
    using x endswith_last[of s "lit ''.png''"] endswith_last[of s "lit ''.jpg''"]
      endswith_last[of s "lit ''.jpeg''"] endswith_last[of s "lit ''.webp''"]
      endswith_last[of s "lit ''.gif''"]
    by (auto simp: lit_def)
qed

lemma slide_pictures_page:
  "img \<in> set (slide_pictures E n shapes) \<Longrightarrow> page img = n"
  by (induction E n shapes rule: slide_pictures.induct) (auto split: option.splits)

lemma slide_pictures_no_picture:
  "\<forall>b. Picture b \<notin> set shapes \<Longrightarrow> slide_pictures E n shapes = []"
  by (induction E n shapes rule: slide_pictures.induct) auto

lemma slide_entry_single: "\<exists>img. slide_entry E n shapes = [img] \<and> page img = n"
proof (cases "slide_pictures E n shapes")
  case Nil
  then show ?thesis by (simp add: slide_entry_def)
next
  case (Cons a as)
  then have "page a = n" using slide_pictures_page[of a E n shapes] by simp
  with Cons show ?thesis by (simp add: slide_entry_def)
qed

lemma slide_entry_placeholder:
  "\<forall>b. Picture b \<notin> set shapes \<Longrightarrow>
   slide_entry E n shapes =
     [\<lparr>page = n, data = [], media_type = lit ''image/jpeg'', placeholder = Some True\<rparr>]"
  by (simp add: slide_entry_def slide_pictures_no_picture)

lemma pptx_loop_length: "length (pptx_loop E n slides) = length slides"
proof (induction slides arbitrary: n)
  case Nil
  then show ?case by simp
next
  case (Cons sl slides)
  obtain img where "slide_entry E n sl = [img]" using slide_entry_single by blast
  with Cons show ?case by simp
qed

lemma pptx_loop_nth:
  "k < length slides \<Longrightarrow> slide_entry E (n + k) (slides ! k) = [pptx_loop E n slides ! k]"
proof (induction slides arbitrary: n k)
  case Nil
  then show ?case by simp
next
  case (Cons sl slides)
  obtain img where img: "slide_entry E n sl = [img]" using slide_entry_single by blast
  show ?case
  proof (cases k)
    case 0
    with img show ?thesis by simp
  next
    case (Suc j)
    with Cons.prems have "j < length slides" by simp
    from Cons.IH[OF this, of "n + 1"] Suc img show ?thesis by simp
  qed
qed

lemma pdf_loop_all:
  assumes "\<forall>i \<in> set idxs. \<exists>png b64 mt. pixmap_png E (doc ! i) = Some png
             \<and> compress_image E 1400 png = Some (b64, mt)"
  shows "\<exists>imgs. pdf_loop E doc idxs = Some imgs \<and> map page imgs = map Suc idxs
           \<and> (\<forall>k < length idxs. \<exists>png. pixmap_png E (doc ! (idxs ! k)) = Some png
                 \<and> compress_image E 1400 png = Some (data (imgs ! k), media_type (imgs ! k)))"
  using assms
proof (induction idxs)
  case Nil
  then show ?case by simp
next
  case (Cons i idxs)
  then obtain png b64 mt where png: "pixmap_png E (doc ! i) = Some png"
    and c: "compress_image E 1400 png = Some (b64, mt)" by auto
  from Cons obtain imgs where imgs: "pdf_loop E doc idxs = Some imgs"
    and pages: "map page imgs = map Suc idxs"
    and each: "\<forall>k < length idxs. \<exists>png. pixmap_png E (doc ! (idxs ! k)) = Some png
                 \<and> compress_image E 1400 png = Some (data (imgs ! k), media_type (imgs ! k))"
    by auto
  let ?img = "\<lparr>page = i + 1, data = b64, media_type = mt, placeholder = None\<rparr>"
  have l: "pdf_loop E doc (i # idxs) = Some (?img # imgs)" using png c imgs by simp
  have "\<exists>png. pixmap_png E (doc ! ((i # idxs) ! k)) = Some png
          \<and> compress_image E 1400 png = Some (data ((?img # imgs) ! k), media_type ((?img # imgs) ! k))"
    if "k < length (i # idxs)" for k
    using that png c each by (cases k) auto
  with l pages show ?case by auto
qed

lemma sample_compress:
  "0 < x \<Longrightarrow> x \<le> 1400 \<Longrightarrow> compress_image sample_env 1400 [x, x] = Some ([x, x], lit ''image/jpeg'')"
  by (simp add: compress_image_def normalized_def sample_env_def Let_def lit_def)

text \<open>
  Claim C5, amended. For a PDF of \<open>n \<ge> 1\<close> pages whose first \<open>min n 30\<close> pages render and
  normalize without error, the upload returns exactly \<open>min n 30\<close> entries, numbered
  \<open>1 .. min n 30\<close>, the \<open>k\<close>-th entry holding the normalized rendering of the \<open>k\<close>-th page.
\<close>

theorem pdf_pages_capped:
  assumes ext: "endswith (lower f) (lit ''.pdf'')"
    and opened: "fitz_open E content = Some doc"
    and nonempty: "doc \<noteq> []"
    and ok: "\<forall>i < min (length doc) 30. \<exists>png b64 mt. pixmap_png E (doc ! i) = Some png
               \<and> compress_image E 1400 png = Some (b64, mt)"
  shows "\<exists>imgs. upload_file E (Some f) content =
            Inr \<lparr>filename = Some f, total_pages = min (length doc) 30, images = imgs\<rparr>
          \<and> length imgs = min (length doc) 30
          \<and> map page imgs = [1..<min (length doc) 30 + 1]
          \<and> (\<forall>k < min (length doc) 30. \<exists>png. pixmap_png E (doc ! k) = Some png
                \<and> compress_image E 1400 png = Some (data (imgs ! k), media_type (imgs ! k)))"
proof -
  let ?n = "min (length doc) 30"
  from ok have "\<forall>i \<in> set [0..<?n]. \<exists>png b64 mt. pixmap_png E (doc ! i) = Some png
             \<and> compress_image E 1400 png = Some (b64, mt)" by simp
  from pdf_loop_all[OF this] obtain imgs where imgs: "pdf_loop E doc [0..<?n] = Some imgs"
    and pages: "map page imgs = map Suc [0..<?n]"
    and each: "\<forall>k < length [0..<?n]. \<exists>png. pixmap_png E (doc ! ([0..<?n] ! k)) = Some png
                 \<and> compress_image E 1400 png = Some (data (imgs ! k), media_type (imgs ! k))"
    by blast
  have len: "length imgs = ?n" using pages by (metis length_map length_upt diff_zero)
  then have ne: "imgs \<noteq> []" using nonempty by (cases doc) auto
  have p: "map page imgs = [1..<?n + 1]" using pages by (simp add: map_Suc_upt)
  have up: "upload_file E (Some f) content =
      Inr \<lparr>filename = Some f, total_pages = ?n, images = imgs\<rparr>"
    using ext opened imgs ne len by (simp add: upload_file_def Let_def del: set_simps)
  have "\<exists>png. pixmap_png E (doc ! k) = Some png
          \<and> compress_image E 1400 png = Some (data (imgs ! k), media_type (imgs ! k))"
    if "k < ?n" for k
    using each that by (auto simp del: upt_Suc)
  with up len p show ?thesis by blast
qed

theorem pdf_pages_capped_witness:
  "\<exists>imgs. upload_file sample_env (Some (lit ''Report.PDF'')) (replicate 31 100) =
            Inr \<lparr>filename = Some (lit ''Report.PDF''), total_pages = 30, images = imgs\<rparr>
          \<and> length imgs = 30 \<and> map page imgs = [1..<31]"
proof -
  let ?doc = "replicate 31 [100, 100::nat]"
  have ext: "endswith (lower (lit ''Report.PDF'')) (lit ''.pdf'')"
    by (simp add: endswith_def lower_def lower_cp_def lit_def)
  have opened: "fitz_open sample_env (replicate 31 100) = Some ?doc"
    by (simp add: sample_env_def)
  have nonempty: "?doc \<noteq> []" by simp
  have ok: "\<forall>i < min (length ?doc) 30. \<exists>png b64 mt. pixmap_png sample_env (?doc ! i) = Some png
               \<and> compress_image sample_env 1400 png = Some (b64, mt)"
    using sample_compress[of 100] by (simp add: sample_env_def)
  from pdf_pages_capped[OF ext opened nonempty ok] show ?thesis by simp blast
qed

text \<open>
  Claim C5 as stated covers \<open>n = 0\<close>: a document of no pages would give no entries. The
  handler refuses an empty result instead.
\<close>

theorem pdf_zero_pages_counterexample:
  "fitz_open sample_env [] = Some []
   \<and> upload_file sample_env (Some (lit ''empty.pdf'')) [] =
       Inl (HTTPException 400 (lit ''Could not extract any images from the file.''))"
  by (simp add: upload_file_def sample_env_def endswith_def lower_def lower_cp_def lit_def)

text \<open>
  Claim C9. For a deck that python-pptx opens, every slide contributes exactly one entry,
  numbered by its 1-based position, and a slide without picture shapes contributes the
  placeholder (\<open>data\<close> empty, \<open>placeholder\<close> true).
\<close>

theorem pptx_one_image_per_slide:
  assumes ext: "endswith (lower f) (lit ''.pptx'')"
    and lib: "pptx_installed E"
    and deck: "Presentation E content = Inr slides"
    and nonempty: "slides \<noteq> []"
  shows "\<exists>imgs. upload_file E (Some f) content =
            Inr \<lparr>filename = Some f, total_pages = length slides, images = imgs\<rparr>
          \<and> length imgs = length slides
          \<and> (\<forall>k < length slides.
                page (imgs ! k) = k + 1 \<and>
                ((\<forall>b. Picture b \<notin> set (slides ! k)) \<longrightarrow>
                   data (imgs ! k) = [] \<and> placeholder (imgs ! k) = Some True))"
proof -
  let ?imgs = "pptx_loop E 1 slides"
  have len: "length ?imgs = length slides" by (rule pptx_loop_length)
  then have ne: "?imgs \<noteq> []" using nonempty by auto
  have up: "upload_file E (Some f) content =
      Inr \<lparr>filename = Some f, total_pages = length slides, images = ?imgs\<rparr>"
    using pptx_not_other[OF ext] ext lib deck ne len
    by (simp add: upload_file_def Let_def del: set_simps)
  have each: "page (?imgs ! k) = k + 1 \<and>
      ((\<forall>b. Picture b \<notin> set (slides ! k)) \<longrightarrow>
         data (?imgs ! k) = [] \<and> placeholder (?imgs ! k) = Some True)"
    if k: "k < length slides" for k
  proof -
    have e: "slide_entry E (1 + k) (slides ! k) = [?imgs ! k]" by (rule pptx_loop_nth[OF k])
    obtain img where "slide_entry E (1 + k) (slides ! k) = [img]" "page img = 1 + k"
      using slide_entry_single by blast
    with e have p: "page (?imgs ! k) = k + 1" by simp
    have "data (?imgs ! k) = [] \<and> placeholder (?imgs ! k) = Some True"
      if "\<forall>b. Picture b \<notin> set (slides ! k)"
    proof -
      have "?imgs ! k =
          \<lparr>page = 1 + k, data = [], media_type = lit ''image/jpeg'', placeholder = Some True\<rparr>"
        using slide_entry_placeholder[OF that, of E "1 + k"] e by simp
      then show ?thesis by simp
    qed
    with p show ?thesis by blast
  qed
  from up len each show ?thesis by blast
qed

theorem pptx_one_image_per_slide_witness:
  "\<exists>imgs. upload_file sample_env (Some (lit ''deck.pptx'')) [0, 7] =
            Inr \<lparr>filename = Some (lit ''deck.pptx''), total_pages = 2, images = imgs\<rparr>
          \<and> length imgs = 2
          \<and> page (imgs ! 0) = 1 \<and> data (imgs ! 0) = [] \<and> placeholder (imgs ! 0) = Some True
          \<and> page (imgs ! 1) = 2"
proof -
  let ?slides = "[[OtherShape], [OtherShape, Picture None, Picture (Some [7, 7]), Picture (Some [8, 7])]]"
  have ext: "endswith (lower (lit ''deck.pptx'')) (lit ''.pptx'')"
    by (simp add: endswith_def lower_def lower_cp_def lit_def)
  have lib: "pptx_installed sample_env" by (simp add: sample_env_def)
  have deck: "Presentation sample_env [0, 7] = Inr ?slides" by (simp add: sample_env_def)
  have nonempty: "?slides \<noteq> []" by simp
  from pptx_one_image_per_slide[OF ext lib deck nonempty]
  obtain imgs where up: "upload_file sample_env (Some (lit ''deck.pptx'')) [0, 7] =
            Inr \<lparr>filename = Some (lit ''deck.pptx''), total_pages = length ?slides, images = imgs\<rparr>"
    and len: "length imgs = length ?slides"
    and each: "\<forall>k < length ?slides.
                page (imgs ! k) = k + 1 \<and>
                ((\<forall>b. Picture b \<notin> set (?slides ! k)) \<longrightarrow>
                   data (imgs ! k) = [] \<and> placeholder (imgs ! k) = Some True)"
    by blast
  from each have "page (imgs ! 0) = 1 \<and> data (imgs ! 0) = [] \<and> placeholder (imgs ! 0) = Some True"
    by (auto dest: spec[of _ 0])
  moreover from each have "page (imgs ! 1) = 2" by (auto dest: spec[of _ 1])
  ultimately show ?thesis using up len by auto
qed

text \<open>
  Claim C10. Every entry of a successful upload has media type \<open>image/jpeg\<close>, whichever
  branch produced it.
\<close>

theorem upload_media_type_jpeg:
  "upload_file E fn content = Inr resp \<Longrightarrow> \<forall>img \<in> set (images resp). media_type img = lit ''image/jpeg''"
  unfolding upload_file_def Let_def
  by (fastforce split: if_splits option.splits sum.splits
           dest: pdf_loop_media_type pptx_loop_media_type compress_image_media_type)

theorem upload_media_type_jpeg_witness:
  "upload_file sample_env (Some (lit ''photo.png'')) [640, 480] =
     Inr \<lparr>filename = Some (lit ''photo.png''), total_pages = 1,
          images = [\<lparr>page = 1, data = [640, 480], media_type = lit ''image/jpeg'', placeholder = None\<rparr>]\<rparr>
   \<and> map media_type
         [\<lparr>page = 1, data = [640, 480], media_type = lit ''image/jpeg'', placeholder = None\<rparr>]
       = [lit ''image/jpeg'']"
proof -
  have up: "upload_file sample_env (Some (lit ''photo.png'')) [640, 480] =
     Inr \<lparr>filename = Some (lit ''photo.png''), total_pages = 1,
          images = [\<lparr>page = 1, data = [640, 480], media_type = lit ''image/jpeg'', placeholder = None\<rparr>]\<rparr>"
    by (simp add: upload_file_def compress_image_def normalized_def sample_env_def
          endswith_def lower_def lower_cp_def lit_def Let_def)
  from upload_media_type_jpeg[OF up] up show ?thesis by simp
qed

section \<open>Properties of the Extraction Client\<close>

lemma rstrip_keep: "s \<noteq> [] \<Longrightarrow> \<not> is_space (last s) \<Longrightarrow> rstrip s = s"
  by (cases s rule: rev_cases) (auto simp: rstrip_def)

lemma rstrip_spaces: "\<forall>c \<in> set ws. is_space c \<Longrightarrow> s \<noteq> [] \<Longrightarrow> \<not> is_space (last s) \<Longrightarrow> rstrip (s @ ws) = s"
proof -
  assume ws: "\<forall>c \<in> set ws. is_space c" and s: "s \<noteq> []" "\<not> is_space (last s)"
  have "dropWhile is_space (rev ws @ rev s) = dropWhile is_space (rev s)"
    using ws by (simp add: dropWhile_append)
  then show ?thesis using rstrip_keep[OF s] by (simp add: rstrip_def)
qed

lemma lstrip_spaces: "\<forall>c \<in> set ws. is_space c \<Longrightarrow> dropWhile is_space (ws @ s) = dropWhile is_space s"
  by (simp add: dropWhile_append)

lemma lstrip_keep: "s \<noteq> [] \<Longrightarrow> \<not> is_space (hd s) \<Longrightarrow> dropWhile is_space s = s"
  by (cases s) auto

lemma strip_core:
  assumes "\<forall>c \<in> set ws0. is_space c" "\<forall>c \<in> set ws3. is_space c"
    and "t \<noteq> []" "\<not> is_space (hd t)" "\<not> is_space (last t)"
  shows "strip (ws0 @ t @ ws3) = t"
proof -
  have "dropWhile is_space (ws0 @ t @ ws3) = t @ ws3"
    using assms by (simp add: lstrip_spaces) (cases t, auto)
  then show ?thesis using assms by (simp add: strip_def rstrip_spaces)
qed

lemma not_space_lit: "\<not> is_space 96" "\<not> is_space 123" "\<not> is_space 125" "\<not> is_space 106"
  by (simp_all add: is_space_def)

lemma loads_not_json_word:
  assumes "json_loads I s = Parsed v" "s \<noteq> []" "\<not> is_space (hd s)"
  shows "hd s \<noteq> 106"
proof
  assume "hd s = 106"
  then obtain r where s: "s = 106 # r" using assms(2) by (cases s) auto
  have "scan_once I d (106 # r) = JSONDecodeError" for d
    by (simp add: scan_once.simps match_number_def int_group_def is_digit_def Let_def lit_def
        startswith_def)
  then show False using assms(1) s
    by (simp add: json_loads_def skip_ws_def is_json_ws_def split: if_splits)
qed

lemma leading_fence_unfold:
  "strip_leading_fence (lit ''```'' @ t) =
     dropWhile is_space (if startswith t (lit ''json'') then drop 4 t else t)"
  by (simp add: strip_leading_fence_def startswith_def lit_def Let_def)

lemma leading_fence_removed:
  assumes tag: "tag = [] \<or> tag = lit ''json''" and ws: "\<forall>c \<in> set ws1. is_space c"
    and c: "c \<noteq> []" "\<not> is_space (hd c)" and nj: "hd c \<noteq> 106"
  shows "strip_leading_fence (lit ''```'' @ tag @ ws1 @ c @ rest) = c @ rest"
proof -
  have fin: "dropWhile is_space (ws1 @ c @ rest) = c @ rest"
    using ws c by (simp add: lstrip_spaces) (cases c, auto)
  show ?thesis
  proof (cases "tag = []")
    case True
    have "\<not> startswith (ws1 @ c @ rest) (lit ''json'')"
    proof (cases ws1)
      case Nil
      show ?thesis using nj Nil c by (cases c) (auto simp: startswith_def lit_def)
    next
      case (Cons w ws')
      then have "is_space w" using ws by simp
      then show ?thesis using Cons not_space_lit(4) by (auto simp: startswith_def lit_def)
    qed
    then show ?thesis using True fin by (simp add: leading_fence_unfold)
  next
    case False
    then have t: "tag = lit ''json''" using tag by simp
    have "startswith (tag @ ws1 @ c @ rest) (lit ''json'')" "drop 4 (tag @ ws1 @ c @ rest) = ws1 @ c @ rest"
      by (simp_all add: t startswith_def lit_def)
    then show ?thesis using fin by (simp add: leading_fence_unfold)
  qed
qed

lemma trailing_fence_removed:
  assumes ws: "\<forall>c \<in> set ws2. is_space c" and c: "c \<noteq> []" "\<not> is_space (last c)"
  shows "strip_trailing_fence (c @ ws2 @ lit ''```'') = c"
proof -
  have e: "endswith (c @ ws2 @ lit ''```'') (lit ''```'')" by (simp add: endswith_def lit_def)
  have "take (length (c @ ws2 @ lit ''```'') - 3) (c @ ws2 @ lit ''```'') = c @ ws2"
    by (simp add: lit_def)
  then show ?thesis using e rstrip_spaces[OF ws c] by (simp add: strip_trailing_fence_def)
qed

lemma fenced_response_text:
  assumes tag: "tag = [] \<or> tag = lit ''json''"
    and ws: "\<forall>c \<in> set (ws0 @ ws1 @ ws2 @ ws3). is_space c"
    and c: "content \<noteq> []" "\<not> is_space (hd content)" "\<not> is_space (last content)"
    and valid: "json_loads I content = Parsed doc"
  shows "response_text (TextBlock (ws0 @ lit ''```'' @ tag @ ws1 @ content @ ws2 @ lit ''```'' @ ws3) # others)
         = content"
proof -
  let ?t = "lit ''```'' @ tag @ ws1 @ content @ ws2 @ lit ''```''"
  have t: "?t \<noteq> []" "\<not> is_space (hd ?t)" "\<not> is_space (last ?t)"
    using not_space_lit by (simp_all add: lit_def)
  have "strip (ws0 @ ?t @ ws3) = ?t"
    using ws by (intro strip_core t) auto
  moreover have "strip_leading_fence ?t = content @ ws2 @ lit ''```''"
    using ws c tag loads_not_json_word[OF valid c(1,2)]
    by (intro leading_fence_removed) auto
  moreover have "strip_trailing_fence (content @ ws2 @ lit ''```'') = content"
    using ws c by (intro trailing_fence_removed) auto
  ultimately show ?thesis by (simp add: response_text_def)
qed

lemma leading_fence_drop:
  "\<exists>k. strip_leading_fence t = drop k t \<and> 123 \<notin> set (take k t)"
proof (cases "startswith t (lit ''```'')")
  case False
  then have "strip_leading_fence t = drop 0 t \<and> 123 \<notin> set (take 0 t)"
    by (simp add: strip_leading_fence_def)
  then show ?thesis by blast
next
  case True
  then obtain r where t: "t = lit ''```'' @ r"
    by (metis append_take_drop_id startswith_def)
  define r' where "r' = (if startswith r (lit ''json'') then drop 4 r else r)"
  define j where "j = (if startswith r (lit ''json'') then 4 else 0::nat)"
  have r': "r' = drop j r" by (simp add: r'_def j_def)
  have tj: "123 \<notin> set (take j r)"
  proof (cases "startswith r (lit ''json'')")
    case True
    have len: "length (lit ''json'') = 4" by (simp add: lit_def)
    from True have "take 4 r = lit ''json''" unfolding startswith_def len .
    then show ?thesis using True by (simp add: j_def lit_def)
  next
    case False
    then show ?thesis by (simp add: j_def)
  qed
  let ?n = "length (takeWhile is_space r')"
  have dw: "dropWhile is_space r' = drop ?n r'" by (simp add: dropWhile_eq_drop)
  have tw: "123 \<notin> set (take ?n r')"
    using set_takeWhileD[of 123 is_space r'] not_space_lit(2)
    by (metis takeWhile_eq_take)
  have l3: "length (lit ''```'') = 3" and n3: "123 \<notin> set (lit ''```'')"
    by (simp_all add: lit_def)
  have "strip_leading_fence t = dropWhile is_space r'"
    unfolding t leading_fence_unfold r'_def ..
  also have "\<dots> = drop (j + ?n) r" using dw r' by (simp add: add.commute)
  also have "\<dots> = drop (3 + (j + ?n)) t" unfolding t using l3 by simp
  finally have a: "strip_leading_fence t = drop (3 + (j + ?n)) t" .
  have "take (3 + (j + ?n)) t = lit ''```'' @ take (j + ?n) r"
    unfolding t using l3 by simp
  also have "\<dots> = lit ''```'' @ take j r @ take ?n r'" by (simp add: take_add r')
  finally have "123 \<notin> set (take (3 + (j + ?n)) t)" using tj tw n3 by simp
  with a show ?thesis by blast
qed

lemma prose_response_text:
  assumes nob: "123 \<notin> set prose" and obj: "obj \<noteq> []" "hd obj = 123" "last obj = 125"
  shows "\<exists>p. response_text (TextBlock (prose @ obj) # others) = p @ obj \<and> 123 \<notin> set p"
proof -
  let ?p1 = "dropWhile is_space prose"
  have p1: "123 \<notin> set ?p1" using nob by (meson set_dropWhileD)
  have "dropWhile is_space (prose @ obj) = ?p1 @ obj"
    using obj not_space_lit(2) by (cases obj) (auto simp: dropWhile_append)
  then have s: "strip (prose @ obj) = ?p1 @ obj"
    using obj not_space_lit(3) by (simp add: strip_def rstrip_keep)
  obtain k where k: "strip_leading_fence (?p1 @ obj) = drop k (?p1 @ obj)"
    and nk: "123 \<notin> set (take k (?p1 @ obj))"
    using leading_fence_drop by blast
  have "k \<le> length ?p1"
  proof (rule ccontr)
    assume "\<not> k \<le> length ?p1"
    then have "hd obj \<in> set (take k (?p1 @ obj))"
      using obj(1) by (cases obj) (auto simp: take_Cons' split: if_splits)
    then show False using nk obj(2) by simp
  qed
  then have l: "strip_leading_fence (?p1 @ obj) = drop k ?p1 @ obj" using k by simp
  have p2: "123 \<notin> set (drop k ?p1)" using p1 by (meson in_set_dropD)
  have lastc: "last (drop k ?p1 @ obj) = 125" using obj by simp
  have "\<not> endswith (drop k ?p1 @ obj) (lit ''```'')"
    using endswith_last[of "drop k ?p1 @ obj" "lit ''```''"] lastc by (auto simp: lit_def)
  moreover have "\<not> endswith (drop k ?p1 @ obj) (lit ''```'' @ [10])"
    using endswith_last[of "drop k ?p1 @ obj" "lit ''```'' @ [10]"] lastc by (auto simp: lit_def)
  ultimately have "strip_trailing_fence (drop k ?p1 @ obj) = drop k ?p1 @ obj"
    by (simp add: strip_trailing_fence_def)
  with s l p2 show ?thesis by (auto simp: response_text_def)
qed

lemma salvage_prose:
  assumes "123 \<notin> set p" "obj \<noteq> []" "hd obj = 123" "last obj = 125"
  shows "salvage_span (p @ obj) = Some obj"
proof -
  have a: "dropWhile (\<lambda>c. c \<noteq> 123) (p @ obj) = obj"
    using assms by (cases obj) (auto simp: dropWhile_append)
  have "dropWhile (\<lambda>c. c \<noteq> 125) (rev obj) = rev obj"
    using assms by (cases obj rule: rev_cases) auto
  then have "rev (dropWhile (\<lambda>c. c \<noteq> 125) (rev obj)) = obj" by simp
  then show ?thesis using a assms(2) unfolding salvage_span_def Let_def by simp
qed

lemma fenced_json_parsed:
  assumes img: "image request \<noteq> []"
    and "tag = [] \<or> tag = lit ''json''" "\<forall>c \<in> set (ws0 @ ws1 @ ws2 @ ws3). is_space c"
      "content \<noteq> []" "\<not> is_space (hd content)" "\<not> is_space (last content)"
    and v: "json_loads I content = Parsed doc"
  shows "extract_chart I request
         (Final (TextBlock (ws0 @ lit ''```'' @ tag @ ws1 @ content @ ws2 @ lit ''```'' @ ws3) # others))
       = Inr doc"
proof -
  have "response_text (TextBlock (ws0 @ lit ''```'' @ tag @ ws1 @ content @ ws2 @ lit ''```'' @ ws3) # others)
         = content" using assms(2-) by (rule fenced_response_text)
  then show ?thesis using img v by (simp add: extract_chart_def)
qed

lemma prose_object_salvaged:
  assumes img: "image request \<noteq> []"
    and a: "123 \<notin> set prose" "obj \<noteq> []" "hd obj = 123" "last obj = 125"
    and v: "json_loads I obj = Parsed doc"
    and d: "json_loads I (response_text (TextBlock (prose @ obj) # others)) = JSONDecodeError"
  shows "extract_chart I request (Final (TextBlock (prose @ obj) # others)) = Inr doc"
proof -
  from prose_response_text[OF a] obtain p where
    p: "response_text (TextBlock (prose @ obj) # others) = p @ obj" "123 \<notin> set p" by blast
  have "salvage_span (p @ obj) = Some obj" using salvage_prose[OF p(2) a(2,3,4)] .
  then show ?thesis using img v d p by (simp add: extract_chart_def)
qed

lemmas loads_eval = json_loads_def scan_once.simps array_items.simps object_members.simps
  lit_def skip_ws_def is_json_ws_def match_number_def number_value_def int_group_def frac_group_def
  exp_group_def int_of_lexeme_def is_digit_def startswith_def
  dict_of_pairs_def digits_val_def decode_uXXXX_def hexval_def backslash_def Let_def

lemmas text_eval = response_text_def strip_def rstrip_def strip_leading_fence_def
  strip_trailing_fence_def salvage_span_def is_space_def endswith_def

subsection \<open>Texts on which \<open>json.loads\<close> raises no \<open>JSONDecodeError\<close>\<close>

lemma dropWhile_none: "\<forall>x \<in> set xs. \<not> P x \<Longrightarrow> dropWhile P xs = xs"
  by (cases xs) auto

lemma response_text_replicate:
  assumes c: "\<not> is_space c" "c \<noteq> 96" and n: "0 < n"
  shows "response_text (TextBlock (replicate n c) # others) = replicate n c"
proof -
  let ?s = "replicate n c"
  have ne: "?s \<noteq> []" using n by simp
  have l: "last ?s = c" and h: "hd ?s = c" using n by (simp_all add: hd_replicate)
  have d: "dropWhile is_space ?s = ?s" using c by (intro dropWhile_none) simp
  have "rstrip ?s = ?s" using ne l c by (intro rstrip_keep) simp_all
  then have s: "strip ?s = ?s" using d by (simp add: strip_def)
  have "take 3 ?s \<noteq> lit ''```''"
  proof
    assume "take 3 ?s = lit ''```''"
    then have "hd (take 3 ?s) = 96" by (simp add: lit_def)
    then show False using h ne c by (simp add: hd_take)
  qed
  moreover have len: "length (lit ''```'') = 3" by (simp add: lit_def)
  ultimately have nl: "\<not> startswith ?s (lit ''```'')"
    unfolding startswith_def len by simp
  have "\<not> endswith ?s (lit ''```'')"
    using endswith_last[of ?s "lit ''```''"] l c by (auto simp: lit_def)
  moreover have "\<not> endswith ?s (lit ''```'' @ [10])"
    using endswith_last[of ?s "lit ''```'' @ [10]"] l c
    by (auto simp: lit_def is_space_def)
  ultimately show ?thesis using s nl
    by (simp add: response_text_def strip_leading_fence_def strip_trailing_fence_def)
qed

lemma scan_once_nested_arrays:
  "d < n \<Longrightarrow> scan_once I d (replicate n 91) = Raised RecursionError"
proof (induction d arbitrary: n)
  case 0
  then obtain m where "n = Suc m" by (cases n) auto
  then show ?case by (simp add: scan_once.simps)
next
  case (Suc d)
  then obtain m where n: "n = Suc m" and m: "d < m" by (cases n) auto
  then obtain k where k: "m = Suc k" by (cases m) auto
  have ih: "scan_once I d (91 # replicate k 91) = Raised RecursionError"
    using Suc.IH[OF m] k by simp
  have "array_items I d (91 # replicate k 91) = Raised RecursionError"
    by (subst array_items.simps) (simp add: ih)
  then show ?case
    unfolding n k by (subst scan_once.simps) (simp add: skip_ws_def is_json_ws_def)
qed

lemma loads_nested_arrays:
  assumes "recursion_budget I < n"
  shows "json_loads I (replicate n 91) = Raised RecursionError"
proof -
  obtain m where m: "n = Suc m" using assms by (cases n) auto
  have "skip_ws (replicate n 91) = replicate n 91"
    by (simp add: skip_ws_def is_json_ws_def m)
  then show ?thesis
    using scan_once_nested_arrays[OF assms] by (simp add: json_loads_def m)
qed

lemma loads_long_integer:
  assumes "640 < n" "int_max_str_digits I \<noteq> 0" "int_max_str_digits I < n"
  shows "json_loads I (replicate n 49) = Raised ValueError"
proof -
  obtain m where m: "n = Suc m" using assms by (cases n) auto
  have tw: "takeWhile is_digit (replicate m 49) = replicate m 49"
    by (simp add: is_digit_def)
  have ig: "int_group (49 # replicate m 49) = 49 # replicate m 49"
    by (simp add: int_group_def is_digit_def tw)
  have mn: "match_number (49 # replicate m 49) = Some (49 # replicate m 49, [], [])"
    unfolding match_number_def Let_def ig by (simp add: frac_group_def exp_group_def)
  have f: "filter is_digit (49 # replicate m 49) = 49 # replicate m 49"
    by (simp add: is_digit_def)
  have nv: "number_value I (49 # replicate m 49, [], []) = Raised ValueError"
    using assms by (simp add: number_value_def is_digit_def m)
  have "scan_once I d (49 # replicate m 49) = Raised ValueError" for d
    by (subst scan_once.simps) (simp add: mn nv lit_def startswith_def)
  moreover have "skip_ws (49 # replicate m 49) = 49 # replicate m 49"
    by (simp add: skip_ws_def is_json_ws_def)
  ultimately show ?thesis by (simp add: json_loads_def m)
qed

lemma decode_errors_give_document:
  assumes "image request \<noteq> []" "\<forall>e. json_loads I (response_text blocks) \<noteq> Raised e"
  shows "(\<exists>doc. extract_chart I request (Final blocks) = Inr doc)
       \<and> (json_loads I (response_text blocks) = JSONDecodeError
            \<and> (\<forall>m doc. salvage_span (response_text blocks) = Some m \<longrightarrow> json_loads I m \<noteq> Parsed doc)
          \<longrightarrow> extract_chart I request (Final blocks) = Inr fallback_doc)"
  using assms by (auto simp: extract_chart_def Let_def split: option.splits parsed.splits)

text \<open>
  Claim C1 fails on the code. A text on which \<open>json.loads\<close> raises an exception other than
  \<open>JSONDecodeError\<close> is not sent to the salvage and does not give the fallback document:
  the handler answers with the status 500. Two such texts, for every interpreter with the
  default limit of 4300 digits, and for every interpreter that lets \<open>json.loads\<close> enter
  1000 nested containers: the integer of 4301 digits \<open>1\<close>, and 1200 times \<open>[\<close>.
\<close>

theorem parse_failure_propagates:
  "extract_chart (I\<lparr>int_max_str_digits := 4300\<rparr>) \<lparr>image = [65], image_media_type = lit ''image/jpeg''\<rparr>
       (Final [TextBlock (replicate 4301 49)])
     = Inl (HTTPException 500 (lit ''Extraction failed: '' @ str_exc I ValueError (replicate 4301 49)))
   \<and> extract_chart (I\<lparr>recursion_budget := 1000\<rparr>) \<lparr>image = [65], image_media_type = lit ''image/jpeg''\<rparr>
       (Final [TextBlock (replicate 1200 91)])
     = Inl (HTTPException 500 (lit ''Extraction failed: '' @ str_exc I RecursionError (replicate 1200 91)))"
proof -
  have t1: "response_text [TextBlock (replicate 4301 49)] = replicate 4301 49"
    by (rule response_text_replicate) (simp_all add: is_space_def)
  have t2: "response_text [TextBlock (replicate 1200 91)] = replicate 1200 91"
    by (rule response_text_replicate) (simp_all add: is_space_def)
  have l1: "json_loads (I\<lparr>int_max_str_digits := 4300\<rparr>) (replicate 4301 49) = Raised ValueError"
    by (rule loads_long_integer) simp_all
  have l2: "json_loads (I\<lparr>recursion_budget := 1000\<rparr>) (replicate 1200 91) = Raised RecursionError"
    by (rule loads_nested_arrays) simp
  show ?thesis
    by (simp add: extract_chart_def Let_def t1 t2 l1 l2)
qed

text \<open>
  Claim C3, amended. The chain runs in order: the stripped text without its fences is
  parsed; when that is a \<open>JSONDecodeError\<close> the span from the first \<open>{\<close> to the last \<open>}\<close> is
  parsed; else the fallback document is returned. A response whose first text block is a
  fence (with the tag \<open>json\<close> or none) around JSON that \<open>json.loads\<close> loads parses to that
  JSON. A response of prose followed by an object that \<open>json.loads\<close> loads and that ends the
  text yields that object through the span, provided the prose holds no \<open>{\<close> (the span
  starts at the first \<open>{\<close> of the text, not of the object).
\<close>

theorem parse_chain:
  "image request \<noteq> [] \<Longrightarrow>
   ((\<forall>e. json_loads I (response_text blocks) \<noteq> Raised e) \<longrightarrow>
      extract_chart I request (Final blocks) =
        Inr (case json_loads I (response_text blocks) of
               Parsed doc \<Rightarrow> doc
             | _ \<Rightarrow>
                 (case salvage_span (response_text blocks) of
                    None \<Rightarrow> fallback_doc
                  | Some matched \<Rightarrow>
                      (case json_loads I matched of Parsed doc \<Rightarrow> doc | _ \<Rightarrow> fallback_doc))))
   \<and> ((tag = [] \<or> tag = lit ''json'') \<and> (\<forall>c \<in> set (ws0 @ ws1 @ ws2 @ ws3). is_space c)
        \<and> content \<noteq> [] \<and> \<not> is_space (hd content) \<and> \<not> is_space (last content)
        \<and> json_loads I content = Parsed fenced_doc
      \<longrightarrow> extract_chart I request
            (Final (TextBlock (ws0 @ lit ''```'' @ tag @ ws1 @ content @ ws2 @ lit ''```'' @ ws3) # others))
          = Inr fenced_doc)
   \<and> (123 \<notin> set prose \<and> obj \<noteq> [] \<and> hd obj = 123 \<and> last obj = 125
        \<and> json_loads I obj = Parsed obj_doc
        \<and> json_loads I (response_text (TextBlock (prose @ obj) # others)) = JSONDecodeError
      \<longrightarrow> extract_chart I request (Final (TextBlock (prose @ obj) # others)) = Inr obj_doc)"
proof (intro conjI impI)
  assume "image request \<noteq> []" and "\<forall>e. json_loads I (response_text blocks) \<noteq> Raised e"
  then show "extract_chart I request (Final blocks) =
        Inr (case json_loads I (response_text blocks) of
               Parsed doc \<Rightarrow> doc
             | _ \<Rightarrow>
                 (case salvage_span (response_text blocks) of
                    None \<Rightarrow> fallback_doc
                  | Some matched \<Rightarrow>
                      (case json_loads I matched of Parsed doc \<Rightarrow> doc | _ \<Rightarrow> fallback_doc)))"
    by (simp add: extract_chart_def Let_def split: option.splits parsed.splits)
next
  assume "image request \<noteq> []"
    and "(tag = [] \<or> tag = lit ''json'') \<and> (\<forall>c \<in> set (ws0 @ ws1 @ ws2 @ ws3). is_space c)
        \<and> content \<noteq> [] \<and> \<not> is_space (hd content) \<and> \<not> is_space (last content)
        \<and> json_loads I content = Parsed fenced_doc"
  then show "extract_chart I request
            (Final (TextBlock (ws0 @ lit ''```'' @ tag @ ws1 @ content @ ws2 @ lit ''```'' @ ws3) # others))
          = Inr fenced_doc"
    by (intro fenced_json_parsed) blast+
next
  assume "image request \<noteq> []"
    and "123 \<notin> set prose \<and> obj \<noteq> [] \<and> hd obj = 123 \<and> last obj = 125
        \<and> json_loads I obj = Parsed obj_doc
        \<and> json_loads I (response_text (TextBlock (prose @ obj) # others)) = JSONDecodeError"
  then show "extract_chart I request (Final (TextBlock (prose @ obj) # others)) = Inr obj_doc"
    by (intro prose_object_salvaged) blast+
qed

theorem parse_chain_witness:
  \<open>\<forall>I. extract_chart (I\<lparr>recursion_budget := 900\<rparr>) \<lparr>image = [65], image_media_type = lit ''image/jpeg''\<rparr>
      (Final [TextBlock ([32] @ lit ''```'' @ lit ''json'' @ [10] @ lit ''{"has_charts": false, "charts": []}''
                          @ [10] @ lit ''```'' @ [10])])
     = Inr (JObj [(lit ''has_charts'', JBool False), (lit ''charts'', JArr [])])
   \<and> extract_chart (I\<lparr>recursion_budget := 900\<rparr>) \<lparr>image = [65], image_media_type = lit ''image/jpeg''\<rparr>
      (Final [TextBlock (lit ''Here is the chart data: '' @ lit ''{"charts": [1]}'')])
     = Inr (JObj [(lit ''charts'', JArr [JInt 1])])
   \<and> extract_chart (I\<lparr>recursion_budget := 900\<rparr>) \<lparr>image = [65], image_media_type = lit ''image/jpeg''\<rparr>
      (Final [TextBlock (lit ''No chart here.'')])
     = Inr fallback_doc\<close>
proof
  fix I :: interp
  let ?I = "I\<lparr>recursion_budget := 900\<rparr>"
  let ?req = "\<lparr>image = [65], image_media_type = lit ''image/jpeg''\<rparr>"
  let ?content = \<open>lit ''{"has_charts": false, "charts": []}''\<close>
  let ?obj = \<open>lit ''{"charts": [1]}''\<close>
  let ?prose = "lit ''Here is the chart data: ''"
  let ?plain = "[TextBlock (lit ''No chart here.'')]"
  have img: "image ?req \<noteq> []" by simp
  have fenced: "(lit ''json'' = [] \<or> lit ''json'' = lit ''json'')
        \<and> (\<forall>c \<in> set ([32] @ [10] @ [10] @ [10]). is_space c)
        \<and> ?content \<noteq> [] \<and> \<not> is_space (hd ?content) \<and> \<not> is_space (last ?content)
        \<and> json_loads ?I ?content = Parsed (JObj [(lit ''has_charts'', JBool False), (lit ''charts'', JArr [])])"
    by (simp add: loads_eval is_space_def)
  have prose: "123 \<notin> set ?prose \<and> ?obj \<noteq> [] \<and> hd ?obj = 123 \<and> last ?obj = 125
        \<and> json_loads ?I ?obj = Parsed (JObj [(lit ''charts'', JArr [JInt 1])])
        \<and> json_loads ?I (response_text (TextBlock (?prose @ ?obj) # [])) = JSONDecodeError"
    by (simp add: loads_eval text_eval)
  have plain: "json_loads ?I (response_text ?plain) = JSONDecodeError
        \<and> salvage_span (response_text ?plain) = None"
    by (simp add: loads_eval text_eval)
  then have chain: "\<forall>e. json_loads ?I (response_text ?plain) \<noteq> Raised e" by simp
  note pc = parse_chain[OF img, where I = ?I and blocks = ?plain and tag = "lit ''json''" and ?ws0.0 = "[32]"
      and ?ws1.0 = "[10]" and ?ws2.0 = "[10]" and ?ws3.0 = "[10]" and content = ?content
      and others = "[]" and prose = ?prose and obj = ?obj
      and fenced_doc = "JObj [(lit ''has_charts'', JBool False), (lit ''charts'', JArr [])]"
      and obj_doc = "JObj [(lit ''charts'', JArr [JInt 1])]"]
  from pc chain plain have c1: "extract_chart ?I ?req (Final ?plain) = Inr fallback_doc" by simp
  from pc fenced have c2: "extract_chart ?I ?req
      (Final [TextBlock ([32] @ lit ''```'' @ lit ''json'' @ [10] @ ?content @ [10] @ lit ''```'' @ [10])])
     = Inr (JObj [(lit ''has_charts'', JBool False), (lit ''charts'', JArr [])])" by blast
  from pc prose have c3: "extract_chart ?I ?req (Final [TextBlock (?prose @ ?obj)])
     = Inr (JObj [(lit ''charts'', JArr [JInt 1])])" by blast
  from c1 c2 c3 show "extract_chart ?I ?req
      (Final [TextBlock ([32] @ lit ''```'' @ lit ''json'' @ [10] @ ?content @ [10] @ lit ''```'' @ [10])])
     = Inr (JObj [(lit ''has_charts'', JBool False), (lit ''charts'', JArr [])])
   \<and> extract_chart ?I ?req (Final [TextBlock (?prose @ ?obj)])
     = Inr (JObj [(lit ''charts'', JArr [JInt 1])])
   \<and> extract_chart ?I ?req (Final ?plain) = Inr fallback_doc" by blast
qed

text \<open>
  Claim C3 as stated fails for prose that holds a brace: the span then starts inside the
  prose, does not parse, and the fallback document is returned instead of the object.
\<close>

theorem prose_with_brace_counterexample:
  \<open>\<forall>I. json_loads (I\<lparr>recursion_budget := 900\<rparr>) (lit ''{"charts": []}'')
        = Parsed (JObj [(lit ''charts'', JArr [])])
   \<and> extract_chart (I\<lparr>recursion_budget := 900\<rparr>) \<lparr>image = [65], image_media_type = lit ''image/jpeg''\<rparr>
        (Final [TextBlock (lit ''Chart {1} of the page: '' @ lit ''{"charts": []}'')])
      = Inr fallback_doc
   \<and> fallback_doc \<noteq> JObj [(lit ''charts'', JArr [])]\<close>
  by (simp add: loads_eval text_eval extract_chart_def fallback_doc_def)

section \<open>Properties of the Export Serializer\<close>


lemma name_loop_fresh: "name_loop base existing candidate suffix \<notin> set existing"
  by (induction base existing candidate suffix rule: name_loop.induct)
     (simp add: name_loop.simps)

lemma safe_sheet_name_fresh: "safe_sheet_name name existing \<notin> set existing"
  by (simp add: safe_sheet_name_def Let_def name_loop_fresh)

lemma xlsx_loop_titles:
  "xlsx_loop R existing i cs = Some sheets \<Longrightarrow>
   distinct existing \<Longrightarrow> distinct (existing @ map sheet_title sheets)"
proof (induction cs arbitrary: existing i sheets)
  case Nil
  then show ?case by simp
next
  case (Cons c cs)
  from Cons.prems(1) obtain ws rest where ws: "xlsx_chart R existing i c = Some ws"
    and rest: "xlsx_loop R (existing @ [sheet_title ws]) (i + 1) cs = Some rest"
    and sheets: "sheets = ws # rest"
    by (auto split: option.splits)
  have "sheet_title ws \<notin> set existing"
    using ws safe_sheet_name_fresh
    by (auto simp: xlsx_chart_def Let_def split: json.splits option.splits)
  then have "distinct (existing @ [sheet_title ws])" using Cons.prems(2) by simp
  from Cons.IH[OF rest this] show ?case using sheets by simp
qed

lemma sheet_names_distinct:
  "xlsx_loop R [] 0 cs = Some sheets \<Longrightarrow> distinct (map sheet_title sheets)"
  using xlsx_loop_titles[of R "[]" 0 cs sheets] by simp

lemma name_loop_run:
  assumes "\<forall>k. suffix \<le> k \<and> k < n \<longrightarrow> base @ [95] @ digits k \<in> set existing"
    and "base @ [95] @ digits n \<notin> set existing" and "candidate \<in> set existing" and "suffix \<le> n"
  shows "name_loop base existing candidate suffix = base @ [95] @ digits n"
  using assms
proof (induction "n - suffix" arbitrary: suffix candidate)
  case 0
  then have "suffix = n" by simp
  with 0 show ?case by (simp add: name_loop.simps[of base existing candidate] name_loop.simps[of base existing "base @ 95 # digits n"])
next
  case (Suc d)
  then have lt: "suffix < n" by simp
  then have in1: "base @ [95] @ digits suffix \<in> set existing" using Suc.prems(1) by simp
  have "name_loop base existing (base @ [95] @ digits suffix) (suffix + 1) = base @ [95] @ digits n"
    using Suc.hyps(2) Suc.prems lt in1 by (intro Suc.hyps(1)) auto
  then show ?case using Suc.prems(3) by (simp add: name_loop.simps[of base existing candidate])
qed

lemma taken_Suc: "taken (Suc n) = taken n @ [if n = 0 then long_title else long_title @ [95] @ digits n]"
  by (cases n) (auto simp: taken_def)

lemma safe_sheet_name_long:
  "safe_sheet_name long_title (taken n) = (if n = 0 then long_title else long_title @ [95] @ digits n)"
proof (cases "n = 0")
  case True
  then show ?thesis
    by (simp add: safe_sheet_name_def taken_def long_title_def name_loop.simps)
next
  case False
  have base: "safe_sheet_name long_title (taken n) = name_loop long_title (taken n) long_title 1"
    by (simp add: safe_sheet_name_def long_title_def Let_def)
  have a: "\<forall>k. 1 \<le> k \<and> k < n \<longrightarrow> long_title @ [95] @ digits k \<in> set (taken n)"
    using False by (auto simp: taken_def)
  have b: "long_title @ [95] @ digits n \<notin> set (taken n)"
    using False by (auto simp: taken_def dest: digits_inj)
  have c: "long_title \<in> set (taken n)" using False by (simp add: taken_def)
  have d: "1 \<le> n" using False by simp
  show ?thesis
    using name_loop_run[OF a b c d] False by (simp add: base)
qed

lemma xlsx_chart_long:
  "xlsx_chart R existing i long_chart = Some ws \<Longrightarrow> sheet_title ws = safe_sheet_name long_title existing"
  by (auto simp: xlsx_chart_def long_chart_def chart_title_def dict_get_def py_or_def Let_def lit_def
         long_title_def split: option.splits)

lemma xlsx_chart_long_ok: "\<exists>ws. xlsx_chart R existing i long_chart = Some ws"
  by (simp add: xlsx_chart_def long_chart_def chart_title_def dict_get_def py_or_def Let_def lit_def
       long_title_def table_rows_def)

lemma xlsx_loop_long:
  "\<exists>sheets. xlsx_loop R (taken m) m (replicate j long_chart) = Some sheets
      \<and> taken m @ map sheet_title sheets = taken (m + j)"
proof (induction j arbitrary: m)
  case 0
  then show ?case by simp
next
  case (Suc j)
  obtain ws where ws: "xlsx_chart R (taken m) m long_chart = Some ws"
    using xlsx_chart_long_ok by blast
  have t: "taken m @ [sheet_title ws] = taken (Suc m)"
    using xlsx_chart_long[OF ws] by (simp add: safe_sheet_name_long taken_Suc)
  from Suc[of "Suc m"] obtain rest where
    rest: "xlsx_loop R (taken (Suc m)) (Suc m) (replicate j long_chart) = Some rest"
    and names: "taken (Suc m) @ map sheet_title rest = taken (Suc m + j)" by blast
  have "xlsx_loop R (taken m) m (replicate (Suc j) long_chart) = Some (ws # rest)"
    using ws rest t by simp
  moreover have "taken m @ map sheet_title (ws # rest) = taken (m + Suc j)"
    using names t by (metis add_Suc_shift append.assoc append_Cons append_Nil list.simps(9) add_Suc)
  ultimately show ?case by blast
qed

lemma q1_sheet_names:
  "\<exists>sheets. xlsx_loop R [] 0 [[(lit ''title'', JStr (lit ''Q1''))], [(lit ''title'', JStr (lit ''Q1''))]] = Some sheets
     \<and> map sheet_title sheets = [lit ''Q1'', lit ''Q1_1'']"
  by (simp add: xlsx_chart_def chart_title_def dict_get_def py_or_def Let_def lit_def
       table_rows_def safe_sheet_name_def name_loop.simps digits.simps)

text \<open>
  Claim C2. The names are pairwise distinct (\<open>sheet_names_distinct\<close>) and two charts titled
  \<open>Q1\<close> get \<open>Q1\<close> and \<open>Q1_1\<close> (\<open>q1_sheet_names\<close>), but the bound of 31 characters, which
  the docstring of \<open>safe_sheet_name\<close> promises too, does not hold: the base keeps 28
  characters, which leaves room for a suffix of two digits only. For 101 charts that all
  carry the same title of 28 characters the last sheet is named with the suffix \<open>_100\<close>,
  32 characters.
\<close>

theorem sheet_name_exceeds_31:
  "\<exists>sheets. xlsx_loop R [] 0 (replicate 101 [(lit ''title'', JStr (replicate 28 65))]) = Some sheets
     \<and> length sheets = 101
     \<and> sheet_title (last sheets) = replicate 28 65 @ lit ''_100''
     \<and> length (sheet_title (last sheets)) = 32"
proof -
  from xlsx_loop_long[of R 0 101] obtain sheets where
    s: "xlsx_loop R [] 0 (replicate 101 long_chart) = Some sheets"
    and n: "map sheet_title sheets = taken 101" by (auto simp: taken_def)
  have len: "length sheets = 101"
    using arg_cong[OF n, of length] by (simp add: taken_def)
  then have ne: "sheets \<noteq> []" by auto
  have d: "digits 100 = lit ''100''" by (simp add: digits.simps lit_def)
  have "taken 101 = taken 100 @ [long_title @ [95] @ digits 100]"
    using taken_Suc[of 100] by simp
  then have "last (taken 101) = replicate 28 65 @ lit ''_100''"
    by (simp add: d long_title_def lit_def)
  then have l: "sheet_title (last sheets) = replicate 28 65 @ lit ''_100''"
    using n ne by (metis last_map)
  have "length (replicate 28 (65::nat) @ lit ''_100'') = 32" by (simp add: lit_def)
  with s len l show ?thesis by (auto simp: long_chart_def long_title_def)
qed

lemma all_some_map_Some: "all_some (map (\<lambda>x. Some (f x)) xs) = Some (map f xs)"
  by (induction xs) auto









lemma export_data_400:
  "(\<exists>detail. export_data R request = Inl (HTTPException 400 detail)) \<longleftrightarrow>
     (charts request = [] \<or> lower (format request) \<notin> {lit ''xlsx'', lit ''csv'', lit ''json''})"
  by (auto simp: export_data_def Let_def split: option.splits)

text \<open>
  Claim C8, amended. The export raises an \<open>HTTPException\<close> exactly when the chart list is
  empty or the lower-cased format is none of \<open>xlsx\<close>, \<open>csv\<close>, \<open>json\<close>, and its status is
  then 400. For a non-empty list and a known format no 400 is raised; the export succeeds
  or fails with an exception of another kind.
\<close>

theorem export_400_iff:
  "((\<exists>detail. export_data R request = Inl (HTTPException 400 detail)) \<longleftrightarrow>
      (charts request = [] \<or> lower (format request) \<notin> {lit ''xlsx'', lit ''csv'', lit ''json''}))
   \<and> (\<forall>status detail. export_data R request = Inl (HTTPException status detail) \<longrightarrow> status = 400)"
  using export_data_400[of R request]
  by (auto simp: export_data_def Let_def split: option.splits if_splits)

theorem export_400_iff_witness:
  "\<forall>R. export_data R \<lparr>charts = [], format = lit ''json'', export_filename = lit ''x''\<rparr>
         = Inl (HTTPException 400 (lit ''No charts provided for export.''))
     \<and> export_data R \<lparr>charts = [sales_chart], format = lit ''pdf'', export_filename = lit ''x''\<rparr>
         = Inl (HTTPException 400 (lit ''Unknown format '' @ [39] @ lit ''pdf'' @ [39]
                                   @ lit ''. Use xlsx, csv, or json.''))
     \<and> export_data R \<lparr>charts = [sales_chart], format = lit ''JSON'', export_filename = lit ''x''\<rparr>
         \<noteq> Inl (HTTPException 400 (lit ''No charts provided for export.''))"
proof (intro allI conjI)
  fix R
  show "export_data R \<lparr>charts = [], format = lit ''json'', export_filename = lit ''x''\<rparr>
         = Inl (HTTPException 400 (lit ''No charts provided for export.''))"
    by (simp add: export_data_def)
  show "export_data R \<lparr>charts = [sales_chart], format = lit ''pdf'', export_filename = lit ''x''\<rparr>
         = Inl (HTTPException 400 (lit ''Unknown format '' @ [39] @ lit ''pdf'' @ [39]
                                   @ lit ''. Use xlsx, csv, or json.''))"
    by (simp add: export_data_def sales_chart_def lower_def lower_cp_def lit_def Let_def)
  have "lower (format \<lparr>charts = [sales_chart], format = lit ''JSON'', export_filename = lit ''x''\<rparr>)
          \<in> {lit ''xlsx'', lit ''csv'', lit ''json''}"
    by (simp add: lower_def lower_cp_def lit_def)
  moreover have "charts \<lparr>charts = [sales_chart], format = lit ''JSON'', export_filename = lit ''x''\<rparr> \<noteq> []"
    by simp
  ultimately show "export_data R \<lparr>charts = [sales_chart], format = lit ''JSON'', export_filename = lit ''x''\<rparr>
         \<noteq> Inl (HTTPException 400 (lit ''No charts provided for export.''))"
    using export_400_iff[of R "\<lparr>charts = [sales_chart], format = lit ''JSON'', export_filename = lit ''x''\<rparr>"]
    by blast
qed

text \<open>
  Claim C8 as stated promises that no error is raised for a non-empty list and a known
  format. The rows of \<open>data\<close> are not validated: a row that is a number has no \<open>get\<close>.
\<close>

theorem export_internal_error_counterexample:
  "\<forall>R. export_data R \<lparr>charts = [[(lit ''title'', JStr (lit ''Sales'')), (lit ''data'', JArr [JInt 100])]],
                       format = lit ''csv'', export_filename = lit ''sales''\<rparr>
        = Inl Uncaught"
  by (simp add: export_data_def csv_text_def csv_chart_def table_rows_def data_row_def chart_title_def
        dict_get_def py_or_def lower_def lower_cp_def lit_def Let_def)


section \<open>Properties of the JSON export\<close>

subsection \<open>Numbers\<close>




















subsection \<open>Strings\<close>




subsection \<open>\<open>json.loads\<close> reads what \<open>json.dumps\<close> printed\<close>















subsection \<open>UTF-8\<close>







subsection \<open>The code points of the printed text\<close>













end
